theory Spec2Isabelle
  imports Main "HOL-Library.Sublist" "HOL-Library.AList"
begin

section \<open>Go strings and the string helpers the validator uses\<close>

text \<open>
  A Go \<^verbatim>\<open>string\<close> is modelled as a \<^typ>\<open>string\<close>. \<^verbatim>\<open>strings.Index(s, sub)\<close>
  is the position of the first occurrence of \<open>sub\<close> in \<open>s\<close>, or \<open>-1\<close>;
  \<^verbatim>\<open>s[i:]\<close> is \<open>drop i s\<close>.
\<close>

fun Index :: "string \<Rightarrow> string \<Rightarrow> int" where
  "Index [] sub = (if sub = [] then 0 else -1)"
| "Index (c # cs) sub =
     (if prefix sub (c # cs) then 0
      else (let r = Index cs sub in if r < 0 then -1 else r + 1))"

text \<open>
  Where a library function works on code points rather than on bytes
  (\<^verbatim>\<open>strings.Fields\<close>, \<^verbatim>\<open>unicode.IsSpace\<close>), the string is modelled by the sequence
  of code points that ranging over it yields, a \<open>rune list\<close> (a byte that belongs to
  no valid encoding counts as one code point, which is no white space). \<^verbatim>\<open>unicode.IsSpace\<close>
  is the White\_Space property of Unicode.
\<close>

type_synonym rune = nat

definition unicode_IsSpace :: "rune \<Rightarrow> bool" where
  "unicode_IsSpace r =
     (r = 0x09 \<or> r = 0x0A \<or> r = 0x0B \<or> r = 0x0C \<or> r = 0x0D \<or> r = 0x20
      \<or> r = 0x85 \<or> r = 0xA0 \<or> r = 0x1680 \<or> (0x2000 \<le> r \<and> r \<le> 0x200A)
      \<or> r = 0x2028 \<or> r = 0x2029 \<or> r = 0x202F \<or> r = 0x205F \<or> r = 0x3000)"

text \<open>
  \<^verbatim>\<open>strings.FieldsFunc(s, f)\<close> splits \<open>s\<close> at each run of code points satisfying \<open>f\<close>;
  the library scans the string once, keeping the field read so far (\<open>cur\<close>).
  \<^verbatim>\<open>strings.Join\<close> concatenates with a separator and \<^verbatim>\<open>strings.ReplaceAll\<close>
  replaces the non-overlapping occurrences of \<open>old\<close> from the left (an empty \<open>old\<close>
  matches before every code point and at the end).
\<close>

fun FieldsFuncFrom :: "('a \<Rightarrow> bool) \<Rightarrow> 'a list \<Rightarrow> 'a list \<Rightarrow> 'a list list" where
  "FieldsFuncFrom f cur [] = (if cur = [] then [] else [cur])"
| "FieldsFuncFrom f cur (c # cs) =
     (if f c then (if cur = [] then FieldsFuncFrom f [] cs else cur # FieldsFuncFrom f [] cs)
      else FieldsFuncFrom f (cur @ [c]) cs)"

definition FieldsFunc :: "('a \<Rightarrow> bool) \<Rightarrow> 'a list \<Rightarrow> 'a list list" where
  "FieldsFunc f s = FieldsFuncFrom f [] s"

fun Join :: "'a list list \<Rightarrow> 'a list \<Rightarrow> 'a list" where
  "Join [] sep = []"
| "Join [x] sep = x"
| "Join (x # y # ys) sep = x @ sep @ Join (y # ys) sep"

function ReplaceAll :: "'a list \<Rightarrow> 'a list \<Rightarrow> 'a list \<Rightarrow> 'a list" where
  "ReplaceAll s old new =
     (if old = [] then new @ concat (map (\<lambda>c. c # new) s)
      else if prefix old s then new @ ReplaceAll (drop (length old) s) old new
      else (case s of [] \<Rightarrow> [] | c # cs \<Rightarrow> c # ReplaceAll cs old new))"
  by pat_completeness auto
termination
  by (relation "measure (\<lambda>(s, old, new). length s)") (auto simp: prefix_def)

declare ReplaceAll.simps [simp del]

text \<open>
  \<^verbatim>\<open>strings.Fields\<close> and \<^verbatim>\<open>strings.HasPrefix\<close> on a \<^typ>\<open>string\<close>; a character is
  read as the code point of the same number.
\<close>

definition isSpaceChar :: "char \<Rightarrow> bool" where
  "isSpaceChar c = unicode_IsSpace (of_char c)"

definition FieldsS :: "string \<Rightarrow> string list" where
  "FieldsS s = FieldsFunc isSpaceChar s"

definition HasPrefix :: "string \<Rightarrow> string \<Rightarrow> bool" where
  "HasPrefix s pre = prefix pre s"

text \<open>
  \<^verbatim>\<open>strings.TrimSpace\<close>, \<^verbatim>\<open>strings.TrimPrefix\<close>, \<^verbatim>\<open>strings.Contains\<close> and
  \<^verbatim>\<open>strings.Split\<close> (which cuts at every occurrence of \<open>sep\<close> from the left and, for
  an empty \<open>sep\<close>, after every character).
\<close>

definition TrimSpace :: "string \<Rightarrow> string" where
  "TrimSpace s = rev (dropWhile isSpaceChar (rev (dropWhile isSpaceChar s)))"

definition TrimPrefix :: "string \<Rightarrow> string \<Rightarrow> string" where
  "TrimPrefix s pre = (if prefix pre s then drop (length pre) s else s)"

definition Contains :: "string \<Rightarrow> string \<Rightarrow> bool" where
  "Contains s sub = (Index s sub \<ge> 0)"

function SplitFrom :: "string \<Rightarrow> string \<Rightarrow> string \<Rightarrow> string list" where
  "SplitFrom cur s sep =
     (if s = [] then [cur]
      else if sep \<noteq> [] \<and> prefix sep s then cur # SplitFrom [] (drop (length sep) s) sep
      else SplitFrom (cur @ [hd s]) (tl s) sep)"
  by pat_completeness auto
termination
  by (relation "measure (\<lambda>(cur, s, sep). length s)") (auto simp: prefix_def)

declare SplitFrom.simps [simp del]

definition Split :: "string \<Rightarrow> string \<Rightarrow> string list" where
  "Split s sep = (if sep = [] then map (\<lambda>c. [c]) s else SplitFrom [] s sep)"

section \<open>Numbers as text\<close>

text \<open>
  \<^verbatim>\<open>%d\<close> of \<^verbatim>\<open>fmt.Sprintf\<close> (decimal digits, a minus sign for a negative number) and
  \<^verbatim>\<open>strconv.Atoi\<close>: an optional sign followed by at least one decimal digit, an error
  (\<open>None\<close>) for anything else and for a value outside the 64-bit range of \<^verbatim>\<open>int\<close>.
\<close>

fun natToString :: "nat \<Rightarrow> string" where
  "natToString n =
     (if n < 10 then [char_of (48 + n)]
      else natToString (n div 10) @ [char_of (48 + n mod 10)])"

declare natToString.simps [simp del]

definition Itoa :: "int \<Rightarrow> string" where
  "Itoa i = (if i < 0 then CHR ''-'' # natToString (nat (- i)) else natToString (nat i))"

definition isDigit :: "char \<Rightarrow> bool" where
  "isDigit c = ((48::nat) \<le> of_char c \<and> of_char c \<le> (57::nat))"

definition digitsValue :: "string \<Rightarrow> int" where
  "digitsValue ds = foldl (\<lambda>acc c. 10 * acc + (of_char c - 48)) 0 ds"

definition Atoi :: "string \<Rightarrow> int option" where
  "Atoi s =
     (let signed = (s \<noteq> [] \<and> (hd s = CHR ''+'' \<or> hd s = CHR ''-''));
          ds = (if signed then tl s else s)
      in if ds = [] \<or> \<not> list_all isDigit ds then None
         else (let n = digitsValue ds;
                   v = (if signed \<and> hd s = CHR ''-'' then - n else n)
               in if v < - (2 ^ 63) \<or> v > 2 ^ 63 - 1 then None else Some v))"

section \<open>Facets (facets.go)\<close>

text \<open>
  The implementations of \<^verbatim>\<open>FacetValidator\<close>, one constructor for each struct, with the
  fields \<^verbatim>\<open>ParseFacet\<close> sets.
\<close>

datatype Facet =
    PatternFacet string
  | EnumerationFacet "string list"
  | LengthFacet int
  | MinLengthFacet int
  | MaxLengthFacet int
  | MinInclusiveFacet string
  | MaxInclusiveFacet string
  | MinExclusiveFacet string
  | MaxExclusiveFacet string
  | TotalDigitsFacet int
  | FractionDigitsFacet int
  | WhiteSpaceFacet string

text \<open>\<^verbatim>\<open>ParseFacet\<close>: nil (\<open>None\<close>) for an unknown name and for a number that does not parse.\<close>

definition ParseFacet :: "string \<Rightarrow> string \<Rightarrow> Facet option" where
  "ParseFacet name val =
     (if name = ''pattern'' then Some (PatternFacet val)
      else if name = ''enumeration'' then Some (EnumerationFacet [val])
      else if name = ''length'' then map_option LengthFacet (Atoi val)
      else if name = ''minLength'' then map_option MinLengthFacet (Atoi val)
      else if name = ''maxLength'' then map_option MaxLengthFacet (Atoi val)
      else if name = ''minInclusive'' then Some (MinInclusiveFacet val)
      else if name = ''maxInclusive'' then Some (MaxInclusiveFacet val)
      else if name = ''minExclusive'' then Some (MinExclusiveFacet val)
      else if name = ''maxExclusive'' then Some (MaxExclusiveFacet val)
      else if name = ''totalDigits'' then map_option TotalDigitsFacet (Atoi val)
      else if name = ''fractionDigits'' then map_option FractionDigitsFacet (Atoi val)
      else if name = ''whiteSpace'' then Some (WhiteSpaceFacet val)
      else None)"

text \<open>\<^verbatim>\<open>CombineEnumerations\<close>: the values of all enumeration facets of a list, in order.\<close>

fun CombineEnumerations :: "Facet list \<Rightarrow> string list" where
  "CombineEnumerations [] = []"
| "CombineEnumerations (EnumerationFacet vs # fs) = vs @ CombineEnumerations fs"
| "CombineEnumerations (f # fs) = CombineEnumerations fs"

section \<open>Schema components (schema.go)\<close>

text \<open>
  A qualified name. Components are modelled with the fields the functions below read;
  the other fields of the Go structs (occurrence bounds, attribute declarations, content
  models of extensions and restrictions, the mutex) are not read by them and are left out.
  A nil pointer or nil interface is \<open>None\<close>. A Go map is an association list read with
  \<open>map_of\<close>; \<^verbatim>\<open>ImportedSchemas\<close> is kept as the list of the map's values.
\<close>

datatype QName = QName (Namespace: string) (Local: string)

record Extension =
  ext_Base :: QName

record Restriction =
  r_Base :: QName
  r_Facets :: "Facet list"

datatype Content =
    SimpleContent "Extension option" "Restriction option"
  | ComplexContent "Extension option" "Restriction option"
  | OtherContent

datatype XType =
    SimpleType QName "Restriction option"
  | ComplexType QName "Content option"

fun Name :: "XType \<Rightarrow> QName" where
  "Name (SimpleType q r) = q"
| "Name (ComplexType q c) = q"

text \<open>
  An identity constraint: its kind is one of the strings \<^verbatim>\<open>key\<close>, \<^verbatim>\<open>keyref\<close>,
  \<^verbatim>\<open>unique\<close>; the selector is the XPath of a \<^verbatim>\<open>Selector\<close> (or nil), each field the
  XPath of a \<^verbatim>\<open>Field\<close>.
\<close>

record IdentityConstraint =
  ic_Name :: string
  ic_Kind :: string
  ic_Selector :: "string option"
  ic_Fields :: "string list"
  ic_Refer :: QName

record ElementDecl =
  ed_Name :: QName
  ed_Type :: "XType option"
  ed_Constraints :: "IdentityConstraint list"

datatype Schema = Schema
  (TargetNamespace: string)
  (ElementDecls: "(QName \<times> ElementDecl) list")
  (TypeDefs: "(QName \<times> XType) list")
  (SubstitutionGroups: "(QName \<times> QName list) list")
  (ImportedSchemas: "Schema list")

text \<open>
  The walk repeats one step for each derivation: \<^verbatim>\<open>X != nil && X.Base.Local != ""\<close>,
  then \<^verbatim>\<open>baseType := s.TypeDefs[X.Base]\<close> and \<^verbatim>\<open>baseType != nil\<close>.
\<close>

definition extensionBase :: "Schema \<Rightarrow> Extension option \<Rightarrow> XType option" where
  "extensionBase s ext =
     (case ext of
        None \<Rightarrow> None
      | Some e \<Rightarrow> if Local (ext_Base e) \<noteq> [] then map_of (TypeDefs s) (ext_Base e) else None)"

definition restrictionBase :: "Schema \<Rightarrow> Restriction option \<Rightarrow> XType option" where
  "restrictionBase s restr =
     (case restr of
        None \<Rightarrow> None
      | Some r \<Rightarrow> if Local (r_Base r) \<noteq> [] then map_of (TypeDefs s) (r_Base r) else None)"

text \<open>
  The names of the types registered in \<^verbatim>\<open>TypeDefs\<close>: a finite set, since a Go map is
  finite. The walk's termination measure counts the names not yet visited.
\<close>

definition typeNames :: "Schema \<Rightarrow> QName set" where
  "typeNames s = Name ` snd ` set (TypeDefs s)"

lemma finite_typeNames: "finite (typeNames s)"
  by (simp add: typeNames_def)

lemma extensionBase_in: "extensionBase s e = Some b \<Longrightarrow> Name b \<in> typeNames s"
  by (auto simp: extensionBase_def typeNames_def split: option.splits if_splits
      dest!: map_of_SomeD intro!: image_eqI[where x="(a, b)" for a b] rev_image_eqI)

lemma restrictionBase_in: "restrictionBase s r = Some b \<Longrightarrow> Name b \<in> typeNames s"
  by (auto simp: restrictionBase_def typeNames_def split: option.splits if_splits
      dest!: map_of_SomeD intro!: rev_image_eqI)

definition walkMeasure :: "Schema \<times> XType option \<times> XType option \<times> QName set \<Rightarrow> nat" where
  "walkMeasure = (\<lambda>(s, a, e, visited).
     card ((typeNames s \<union> (case a of None \<Rightarrow> {} | Some t \<Rightarrow> {Name t})) - visited))"

lemma walk_decreases:
  assumes "nb \<in> typeNames s" "na \<notin> visited"
  shows "card (insert nb (typeNames s) - insert na visited)
       < card (insert na (typeNames s) - visited)"
proof -
  have fin: "finite (insert na (typeNames s) - visited)"
    by (simp add: finite_typeNames)
  have sub: "insert nb (typeNames s) - insert na visited \<subset> insert na (typeNames s) - visited"
    using assms by auto
  show ?thesis by (rule psubset_card_mono[OF fin sub])
qed

text \<open>
  \<^verbatim>\<open>isTypeCompatibleWithCycleDetection\<close>, with the visited map as a set of names. Every
  branch of the source that finds a base type returns the result of the recursive call.
\<close>

function isTypeCompatibleWithCycleDetection ::
  "Schema \<Rightarrow> XType option \<Rightarrow> XType option \<Rightarrow> QName set \<Rightarrow> bool" where
  "isTypeCompatibleWithCycleDetection s actualType expectedType visited =
     (case (actualType, expectedType) of
        (Some actual, Some expected) \<Rightarrow>
          if Name actual = Name expected then True
          else if Name actual \<in> visited then False
          else
            (let visited' = insert (Name actual) visited in
             case actual of
               ComplexType q (Some (ComplexContent ext restr)) \<Rightarrow>
                 (case extensionBase s ext of
                    Some baseType \<Rightarrow>
                      isTypeCompatibleWithCycleDetection s (Some baseType) expectedType visited'
                  | None \<Rightarrow>
                      (case restrictionBase s restr of
                         Some baseType \<Rightarrow>
                           isTypeCompatibleWithCycleDetection s (Some baseType) expectedType visited'
                       | None \<Rightarrow> False))
             | ComplexType q (Some (SimpleContent ext restr)) \<Rightarrow>
                 (case extensionBase s ext of
                    Some baseType \<Rightarrow>
                      isTypeCompatibleWithCycleDetection s (Some baseType) expectedType visited'
                  | None \<Rightarrow>
                      (case restrictionBase s restr of
                         Some baseType \<Rightarrow>
                           isTypeCompatibleWithCycleDetection s (Some baseType) expectedType visited'
                       | None \<Rightarrow> False))
             | ComplexType q _ \<Rightarrow> False
             | SimpleType q restr \<Rightarrow>
                 (case restrictionBase s restr of
                    Some baseType \<Rightarrow>
                      isTypeCompatibleWithCycleDetection s (Some baseType) expectedType visited'
                  | None \<Rightarrow> False))
      | _ \<Rightarrow> False)"
  by pat_completeness auto
termination
proof (relation "measure walkMeasure")
qed (auto simp: walkMeasure_def intro!: walk_decreases dest: extensionBase_in restrictionBase_in)

declare isTypeCompatibleWithCycleDetection.simps [simp del]

definition isTypeCompatible :: "Schema \<Rightarrow> XType option \<Rightarrow> XType option \<Rightarrow> bool" where
  "isTypeCompatible s actualType expectedType =
     isTypeCompatibleWithCycleDetection s actualType expectedType {}"

text \<open>
  The type the walk moves to from \<open>t\<close>, if any (the base the source's branches pick),
  and the chains of such steps: \<open>derivesVia s a n ns\<close> holds when following the bases
  from \<open>a\<close> reaches a type named \<open>n\<close>, passing the types named \<open>ns\<close> on the way.
\<close>

definition derivationBase :: "Schema \<Rightarrow> XType \<Rightarrow> XType option" where
  "derivationBase s t =
     (case t of
        ComplexType q (Some (ComplexContent ext restr)) \<Rightarrow>
          (case extensionBase s ext of Some b \<Rightarrow> Some b | None \<Rightarrow> restrictionBase s restr)
      | ComplexType q (Some (SimpleContent ext restr)) \<Rightarrow>
          (case extensionBase s ext of Some b \<Rightarrow> Some b | None \<Rightarrow> restrictionBase s restr)
      | ComplexType q _ \<Rightarrow> None
      | SimpleType q restr \<Rightarrow> restrictionBase s restr)"

fun derivesVia :: "Schema \<Rightarrow> XType \<Rightarrow> QName \<Rightarrow> QName list \<Rightarrow> bool" where
  "derivesVia s a n [] = (Name a = n)"
| "derivesVia s a n (m # ns) =
     (Name a \<noteq> n \<and> m = Name a \<and>
      (case derivationBase s a of Some b \<Rightarrow> derivesVia s b n ns | None \<Rightarrow> False))"

section \<open>XML documents (the xmldom interface)\<close>

text \<open>
  The instance documents and schema documents the code walks. An element has a namespace
  URI, a local name, its attributes, its child elements in document order and, in
  \<open>e_Text\<close>, the concatenation of its direct text nodes (what
  \<^verbatim>\<open>getElementTextContent\<close> returns). The items of \<^verbatim>\<open>Attributes()\<close> and \<^verbatim>\<open>Children()\<close>
  below their \<^verbatim>\<open>Length()\<close> are never nil. \<^verbatim>\<open>GetAttribute\<close> returns the value of the
  attribute with the given qualified name, or the empty string.
\<close>

datatype Attr = Attr
  (a_NamespaceURI: string)
  (a_NodeName: string)
  (a_LocalName: string)
  (a_NodeValue: string)

datatype Element = Element
  (e_NamespaceURI: string)
  (e_LocalName: string)
  (e_Attributes: "Attr list")
  (e_Children: "Element list")
  (e_Text: string)

definition GetAttribute :: "Element \<Rightarrow> string \<Rightarrow> string" where
  "GetAttribute e name =
     (case find (\<lambda>a. a_NodeName a = name) (e_Attributes e) of
        Some a \<Rightarrow> a_NodeValue a
      | None \<Rightarrow> [])"

text \<open>A document; \<^verbatim>\<open>DocumentElement()\<close> is nil for a document without a root.\<close>

datatype Document = Document (DocumentElement: "Element option")

text \<open>\<^verbatim>\<open>Violation\<close>, the record of a validation error.\<close>

record Violation =
  v_Element :: "Element option"
  v_Attribute :: string
  v_Code :: string
  v_Message :: string
  v_Expected :: "string list"
  v_Actual :: string

section \<open>Wildcard namespace constraints (wildcards.go, validator.go)\<close>

record WildcardNamespaceConstraint =
  wnc_Mode :: string
  wnc_Namespaces :: "string list"

text \<open>
  \<^verbatim>\<open>ParseNamespaceConstraint\<close>: only a value that does not begin with \<^verbatim>\<open>##\<close> is split
  into a list; any other value becomes the mode as it is.
\<close>

definition ParseNamespaceConstraint :: "string \<Rightarrow> WildcardNamespaceConstraint" where
  "ParseNamespaceConstraint v =
     (let val = (if v = [] then ''##any'' else v)
      in if \<not> HasPrefix val ''##''
         then \<lparr>wnc_Mode = ''list'', wnc_Namespaces = FieldsS val\<rparr>
         else \<lparr>wnc_Mode = val, wnc_Namespaces = []\<rparr>)"

text \<open>\<^verbatim>\<open>WildcardNamespaceConstraint.Matches\<close>, with the two loops of the list case.\<close>

definition Matches :: "WildcardNamespaceConstraint \<Rightarrow> string \<Rightarrow> string \<Rightarrow> bool" where
  "Matches c namespace targetNamespace =
     (if wnc_Mode c = ''##any'' then True
      else if wnc_Mode c = ''##other'' then namespace \<noteq> targetNamespace
      else if wnc_Mode c = ''##targetNamespace'' then namespace = targetNamespace
      else if wnc_Mode c = ''##local'' then namespace = []
      else if wnc_Mode c = ''list'' then
        (if list_ex (\<lambda>ns. ns = namespace) (wnc_Namespaces c) then True
         else if list_ex (\<lambda>ns. (ns = ''##targetNamespace'' \<and> namespace = targetNamespace)
                              \<or> (ns = ''##local'' \<and> namespace = []))
                   (wnc_Namespaces c)
         then True
         else False)
      else False)"

text \<open>\<^verbatim>\<open>MatchesWildcard\<close>: the check the content-model matcher runs for an element.\<close>

definition MatchesWildcard :: "Element \<Rightarrow> string \<Rightarrow> string \<Rightarrow> bool" where
  "MatchesWildcard elem namespace targetNamespace =
     Matches (ParseNamespaceConstraint namespace) (e_NamespaceURI elem) targetNamespace"

text \<open>\<^verbatim>\<open>Validator.matchesNamespace\<close>, for a validator of the schema \<open>schema\<close>.\<close>

definition matchesNamespace :: "Schema \<Rightarrow> string \<Rightarrow> string \<Rightarrow> bool" where
  "matchesNamespace schema ns pattern =
     (if pattern = ''##any'' then True
      else if pattern = ''##other'' then ns \<noteq> TargetNamespace schema
      else if pattern = ''##targetNamespace'' then ns = TargetNamespace schema
      else if pattern = ''##local'' then ns = []
      else list_ex (\<lambda>allowed. allowed = ns) (FieldsS pattern))"

section \<open>Substitution groups and particle matching (schema.go)\<close>

text \<open>
  \<^verbatim>\<open>isSubstitutableFor\<close>. The loop over the members of the head's bucket returns at the
  first member equal to the actual element, so it is a membership test followed by the
  decision taken for that member. The imported schemas are tried when the bucket gave
  nothing.
\<close>

fun isSubstitutableFor :: "Schema \<Rightarrow> QName \<Rightarrow> QName \<Rightarrow> bool" where
  "isSubstitutableFor (Schema tns eds tds sgs imps) actualElement expectedElement =
     (let s = Schema tns eds tds sgs imps in
      if (case map_of sgs expectedElement of
            Some members \<Rightarrow> actualElement \<in> set members
          | None \<Rightarrow> False)
      then
        (case (map_of eds actualElement, map_of eds expectedElement) of
           (Some actualDecl, Some expectedDecl) \<Rightarrow>
             if isTypeCompatible s (ed_Type actualDecl) (ed_Type expectedDecl) then True
             else ed_Type actualDecl \<noteq> None \<and> ed_Type expectedDecl \<noteq> None
         | _ \<Rightarrow> True)
      else list_ex (\<lambda>importedSchema. isSubstitutableFor importedSchema actualElement expectedElement)
             imps)"

text \<open>
  The particles of a content model as the matcher reads them. The validation of a
  referenced group (\<^verbatim>\<open>group.Validate\<close>) is not modelled: \<open>groupValid ref elem\<close> is
  \<open>None\<close> when the schema has no group \<open>ref\<close> and otherwise tells whether that
  validation reports no violation.
\<close>

datatype Particle =
    PElementDecl ElementDecl
  | PElementRef QName
  | PGroupRef QName
  | PAnyElement string
  | PModelGroup "Particle list"

fun elementMatchesParticle ::
  "(QName \<Rightarrow> Element \<Rightarrow> bool option) \<Rightarrow> Schema \<Rightarrow> Element \<Rightarrow> Particle \<Rightarrow> bool" where
  "elementMatchesParticle groupValid schema elem (PElementDecl p) =
     (let elemQName = QName (e_NamespaceURI elem) (e_LocalName elem)
      in if elemQName = ed_Name p then True
         else isSubstitutableFor schema elemQName (ed_Name p))"
| "elementMatchesParticle groupValid schema elem (PElementRef ref) =
     (let elemQName = QName (e_NamespaceURI elem) (e_LocalName elem)
      in if elemQName = ref then True
         else isSubstitutableFor schema elemQName ref)"
| "elementMatchesParticle groupValid schema elem (PGroupRef ref) =
     (case groupValid ref elem of Some ok \<Rightarrow> ok | None \<Rightarrow> False)"
| "elementMatchesParticle groupValid schema elem (PAnyElement namespace) =
     MatchesWildcard elem namespace (TargetNamespace schema)"
| "elementMatchesParticle groupValid schema elem (PModelGroup particles) =
     list_ex (elementMatchesParticle groupValid schema elem) particles"

section \<open>Whitespace normalisation of the facet engine (facets.go)\<close>

text \<open>
  \<^verbatim>\<open>NormalizeWhiteSpace(value, whiteSpace)\<close>. The \<^verbatim>\<open>"collapse"\<close> branch of the source
  calls the function itself with \<^verbatim>\<open>"replace"\<close>; that branch is
  \<open>NormalizeWhiteSpace_replace\<close> here. TAB, LF, CR and space are the code points
  9, 10, 13 and 32.
\<close>

definition Fields :: "rune list \<Rightarrow> rune list list" where
  "Fields s = FieldsFunc unicode_IsSpace s"

definition NormalizeWhiteSpace_replace :: "rune list \<Rightarrow> rune list" where
  "NormalizeWhiteSpace_replace v =
     (let result = ReplaceAll v [0x09] [0x20];
          result = ReplaceAll result [0x0A] [0x20];
          result = ReplaceAll result [0x0D] [0x20]
      in result)"

definition NormalizeWhiteSpace :: "rune list \<Rightarrow> string \<Rightarrow> rune list" where
  "NormalizeWhiteSpace v whiteSpace =
     (if whiteSpace = ''replace'' then NormalizeWhiteSpace_replace v
      else if whiteSpace = ''collapse'' then
        (let result = NormalizeWhiteSpace_replace v;
             result = Join (Fields result) [0x20]
         in result)
      else v)"

text \<open>A field of \<^verbatim>\<open>strings.FieldsFunc\<close>: not empty, and free of separators.\<close>

definition clean :: "('a \<Rightarrow> bool) \<Rightarrow> 'a list \<Rightarrow> bool" where
  "clean f w = (w \<noteq> [] \<and> list_all (\<lambda>c. \<not> f c) w)"

section \<open>Identity constraints (identity\_constraints.go)\<close>

text \<open>
  The simplified XPath evaluation. The Go functions append to a result slice passed by
  pointer; here they return the elements they append, in the same order.
\<close>

fun findMatchingChildren :: "Element \<Rightarrow> string list \<Rightarrow> Element list" where
  "findMatchingChildren elem [] = [elem]"
| "findMatchingChildren elem (currentStep # remainingSteps) =
     (if currentStep = ''.'' then findMatchingChildren elem remainingSteps
      else concat (map (\<lambda>child.
             if e_LocalName child = currentStep
             then (if remainingSteps = [] then [child]
                   else findMatchingChildren child remainingSteps)
             else []) (e_Children elem)))"

fun findMatchingDescendants :: "Element \<Rightarrow> string \<Rightarrow> Element list" where
  "findMatchingDescendants (Element ns ln attrs children txt) name =
     (if ln = name then [Element ns ln attrs children txt] else [])
     @ concat (map (\<lambda>child. findMatchingDescendants child name) children)"

definition removeNamespacePrefixes :: "string \<Rightarrow> string" where
  "removeNamespacePrefixes xpath =
     Join (map (\<lambda>part.
             let idx = Index part '':''
             in if idx > 0 \<and> \<not> HasPrefix part ''@'' then drop (nat (idx + 1)) part else part)
           (Split xpath ''/'')) ''/''"

definition evaluateSimpleXPath :: "Element \<Rightarrow> string \<Rightarrow> Element list" where
  "evaluateSimpleXPath root xpath0 =
     (let xpath = TrimSpace xpath0;
          xpath = removeNamespacePrefixes xpath;
          xpath = (if HasPrefix xpath ''/'' then TrimPrefix xpath ''/'' else xpath);
          searchDescendants = (HasPrefix xpath ''.//'' \<or> HasPrefix xpath ''//'');
          xpath = (if HasPrefix xpath ''.//'' then TrimPrefix xpath ''.//''
                   else if HasPrefix xpath ''//'' then TrimPrefix xpath ''//''
                   else xpath);
          steps = Split xpath ''/''
      in if searchDescendants then
           (let results = findMatchingDescendants root (hd steps)
            in if length steps > 1
               then concat (map (\<lambda>elem. findMatchingChildren elem (tl steps)) results)
               else results)
         else findMatchingChildren root steps)"

text \<open>
  \<^verbatim>\<open>evaluateSelector\<close>, called with the document's root element (\<^verbatim>\<open>Validator.Validate\<close>
  has checked that there is one).
\<close>

definition evaluateSelector :: "Element \<Rightarrow> string option \<Rightarrow> Element list" where
  "evaluateSelector root selector =
     (case selector of
        None \<Rightarrow> []
      | Some xpath \<Rightarrow> if xpath = [] then [] else evaluateSimpleXPath root xpath)"

definition evaluateFieldXPath :: "Element \<Rightarrow> string \<Rightarrow> string" where
  "evaluateFieldXPath node xpath0 =
     (let xpath = TrimSpace xpath0 in
      if HasPrefix xpath ''@'' then GetAttribute node (TrimPrefix xpath ''@'')
      else if xpath = ''.'' \<or> xpath = ''text()'' then e_Text node
      else
        (let elements = (if \<not> Contains xpath ''@'' \<and> \<not> Contains xpath ''()''
                         then evaluateSimpleXPath node xpath else [])
         in if elements \<noteq> [] then e_Text (hd elements)
            else if Contains xpath ''/@'' then
              (let parts = Split xpath ''/@'' in
               if length parts = 2 then
                 (let elements = evaluateSimpleXPath node (parts ! 0)
                  in if elements \<noteq> [] then GetAttribute (hd elements) (parts ! 1) else [])
               else [])
            else []))"

definition extractFieldValues :: "Element \<Rightarrow> string list \<Rightarrow> string list" where
  "extractFieldValues node fieldXPaths = map (\<lambda>field. evaluateFieldXPath node field) fieldXPaths"

text \<open>
  The identity-constraint validator. Its two Go maps are association lists with one
  entry for each key: \<open>AList.update\<close> replaces the value of a key that is present and
  adds an absent key. The Go loops over a map run over the entries in an order the
  language leaves open; the model takes the order of the list.
\<close>

record IdentityConstraintValidator =
  icv_constraints :: "(string \<times> IdentityConstraint) list"
  icv_keyValues :: "(string \<times> (string \<times> Element list) list) list"

definition NewIdentityConstraintValidator :: IdentityConstraintValidator where
  "NewIdentityConstraintValidator = \<lparr>icv_constraints = [], icv_keyValues = []\<rparr>"

definition AddConstraint ::
  "IdentityConstraint \<Rightarrow> IdentityConstraintValidator \<Rightarrow> IdentityConstraintValidator" where
  "AddConstraint constraint v =
     v\<lparr>icv_constraints := AList.update (ic_Name constraint) constraint (icv_constraints v),
       icv_keyValues := AList.update (ic_Name constraint) [] (icv_keyValues v)\<rparr>"

text \<open>\<open>v.keyValues[name][keyValue]\<close>, read and written.\<close>

definition keyValuesLookup ::
  "(string \<times> (string \<times> Element list) list) list \<Rightarrow> string \<Rightarrow> string \<Rightarrow> Element list option" where
  "keyValuesLookup kv name keyValue =
     (case map_of kv name of None \<Rightarrow> None | Some m \<Rightarrow> map_of m keyValue)"

definition keyValuesStore ::
  "(string \<times> (string \<times> Element list) list) list \<Rightarrow> string \<Rightarrow> string \<Rightarrow> Element list
   \<Rightarrow> (string \<times> (string \<times> Element list) list) list" where
  "keyValuesStore kv name keyValue nodes =
     AList.update name
       (AList.update keyValue nodes (case map_of kv name of None \<Rightarrow> [] | Some m \<Rightarrow> m)) kv"

text \<open>
  The body of the first pass for one selected node: the duplicate check, which also
  records the node, and for a key constraint the check for empty fields. The state is
  the list of violations so far and the key values.
\<close>

definition nullFieldViolations :: "string \<Rightarrow> Element \<Rightarrow> string list \<Rightarrow> Violation list" where
  "nullFieldViolations name node fieldValues =
     concat (map (\<lambda>(i, fieldValue).
        if fieldValue = [] then
          [\<lparr>v_Element = Some node, v_Attribute = [], v_Code = ''cvc-identity-constraint.4.2.2'',
            v_Message = ''Key constraint '' @ [CHR 0x27] @ name @ [CHR 0x27] @ '' field ''
                        @ Itoa (int i + 1) @ '' cannot be null'',
            v_Expected = [], v_Actual = []\<rparr>]
        else []) (zip [0..<length fieldValues] fieldValues))"

definition collectKeyNode ::
  "string \<Rightarrow> IdentityConstraint \<Rightarrow> Element
   \<Rightarrow> Violation list \<times> (string \<times> (string \<times> Element list) list) list
   \<Rightarrow> Violation list \<times> (string \<times> (string \<times> Element list) list) list" where
  "collectKeyNode name constraint node st =
     (let (violations, kv) = st;
          fieldValues = extractFieldValues node (ic_Fields constraint)
      in if length fieldValues = 0 then (violations, kv)
         else
           (let keyValue = Join fieldValues ''|'';
                (violations, kv) =
                  (case keyValuesLookup kv name keyValue of
                     Some existingNodes \<Rightarrow>
                       (violations @
                          [\<lparr>v_Element = Some node, v_Attribute = [],
                            v_Code = ''cvc-identity-constraint.4.1'',
                            v_Message = ''Duplicate '' @ ic_Kind constraint @ '' constraint ''
                                        @ [CHR 0x27] @ name @ [CHR 0x27] @ '' value: '' @ keyValue,
                            v_Expected = [], v_Actual = []\<rparr>],
                        keyValuesStore kv name keyValue (existingNodes @ [node]))
                   | None \<Rightarrow> (violations, keyValuesStore kv name keyValue [node]))
            in if ic_Kind constraint = ''key''
               then (violations @ nullFieldViolations name node fieldValues, kv)
               else (violations, kv)))"

definition collectKeys ::
  "Element \<Rightarrow> string \<times> IdentityConstraint
   \<Rightarrow> Violation list \<times> (string \<times> (string \<times> Element list) list) list
   \<Rightarrow> Violation list \<times> (string \<times> (string \<times> Element list) list) list" where
  "collectKeys root entry st =
     (let (name, constraint) = entry in
      if ic_Kind constraint = ''key'' \<or> ic_Kind constraint = ''unique''
      then fold (collectKeyNode name constraint) (evaluateSelector root (ic_Selector constraint)) st
      else st)"

text \<open>The second pass for one constraint: a keyref is checked against the recorded keys.\<close>

definition checkKeyref ::
  "Element \<Rightarrow> (string \<times> IdentityConstraint) list
   \<Rightarrow> (string \<times> (string \<times> Element list) list) list
   \<Rightarrow> string \<times> IdentityConstraint \<Rightarrow> Violation list" where
  "checkKeyref root constraints kv entry =
     (let (name, constraint) = entry in
      if ic_Kind constraint = ''keyref'' then
        (case map_of constraints (Local (ic_Refer constraint)) of
           None \<Rightarrow>
             [\<lparr>v_Element = None, v_Attribute = [], v_Code = ''src-identity-constraint.2.2.2'',
               v_Message = ''Keyref '' @ [CHR 0x27] @ name @ [CHR 0x27]
                           @ '' refers to unknown constraint '' @ [CHR 0x27]
                           @ Local (ic_Refer constraint) @ [CHR 0x27],
               v_Expected = [], v_Actual = []\<rparr>]
         | Some referencedConstraint \<Rightarrow>
             concat (map (\<lambda>node.
               let fieldValues = extractFieldValues node (ic_Fields constraint)
               in if length fieldValues = 0 then []
                  else
                    (let keyValue = Join fieldValues ''|''
                     in if keyValuesLookup kv (Local (ic_Refer constraint)) keyValue = None
                        then [\<lparr>v_Element = Some node, v_Attribute = [],
                               v_Code = ''cvc-identity-constraint.4.3'',
                               v_Message = ''Keyref '' @ [CHR 0x27] @ name @ [CHR 0x27] @ '' value ''
                                           @ [CHR 0x27] @ keyValue @ [CHR 0x27]
                                           @ '' does not match any '' @ ic_Kind referencedConstraint
                                           @ '' '' @ [CHR 0x27] @ Local (ic_Refer constraint)
                                           @ [CHR 0x27],
                               v_Expected = [], v_Actual = []\<rparr>]
                        else []))
               (evaluateSelector root (ic_Selector constraint))))
      else [])"

text \<open>
  \<^verbatim>\<open>IdentityConstraintValidator.Validate\<close>: the violations it returns and the validator
  as the call leaves it. The call starts from the key values the validator holds.
\<close>

definition icvValidate ::
  "IdentityConstraintValidator \<Rightarrow> Element \<Rightarrow> Violation list \<times> IdentityConstraintValidator" where
  "icvValidate v root =
     (let (violations, kv) = fold (collectKeys root) (icv_constraints v) ([], icv_keyValues v);
          violations = violations
                       @ concat (map (checkKeyref root (icv_constraints v) kv) (icv_constraints v))
      in (violations, v\<lparr>icv_keyValues := kv\<rparr>))"

section \<open>The instance validator (validator.go)\<close>

text \<open>
  The validator's state. \<open>vl_ids\<close> and \<open>vl_idRefs\<close> are the Go maps from a value to
  the element that carries it, as association lists with one entry for each key.
\<close>

record Validator =
  vl_schema :: Schema
  vl_idRefs :: "(string \<times> Element) list"
  vl_ids :: "(string \<times> Element) list"
  vl_violations :: "Violation list"
  vl_idConstraints :: "IdentityConstraintValidator option"

text \<open>
  \<^verbatim>\<open>NewValidator\<close> registers the identity constraints of every element declaration of
  the schema.
\<close>

definition NewValidator :: "Schema \<Rightarrow> Validator" where
  "NewValidator schema =
     \<lparr>vl_schema = schema, vl_idRefs = [], vl_ids = [], vl_violations = [],
      vl_idConstraints =
        Some (fold (\<lambda>(name, decl) icv. fold AddConstraint (ed_Constraints decl) icv)
                (ElementDecls schema) NewIdentityConstraintValidator)\<rparr>"

definition addViolation ::
  "Validator \<Rightarrow> Element \<Rightarrow> string \<Rightarrow> string \<Rightarrow> string \<Rightarrow> string list \<Rightarrow> string \<Rightarrow> Validator" where
  "addViolation v elem attr code message expected actual =
     v\<lparr>vl_violations := vl_violations v @
        [\<lparr>v_Element = Some elem, v_Attribute = attr, v_Code = code, v_Message = message,
          v_Expected = expected, v_Actual = actual\<rparr>]\<rparr>"

text \<open>
  \<^verbatim>\<open>collectIDsAndRefs\<close>: the body of the loop over the attributes of one element, then
  the function itself, which handles the attributes of the element and recurses through
  its children.
\<close>

definition idrefAttrs :: "string list" where
  "idrefAttrs = [''target'', ''ref'', ''idref'', ''IDREF'', ''idlocation'', ''sendid'']"

definition collectAttr :: "Element \<Rightarrow> Attr \<Rightarrow> Validator \<Rightarrow> Validator" where
  "collectAttr elem attr v =
     (let attrName = a_LocalName attr;
          attrValue = a_NodeValue attr;
          v = (if attrName = ''id'' \<or> attrName = ''ID'' then
                 (if map_of (vl_ids v) attrValue \<noteq> None
                  then addViolation v elem attrName ''cvc-id.2''
                         (''Duplicate ID value '' @ [CHR 0x27] @ attrValue @ [CHR 0x27]) [] attrValue
                  else v\<lparr>vl_ids := AList.update attrValue elem (vl_ids v)\<rparr>)
               else v)
      in if list_ex (\<lambda>refName. attrName = refName \<and> attrValue \<noteq> []) idrefAttrs
         then v\<lparr>vl_idRefs := AList.update attrValue elem (vl_idRefs v)\<rparr>
         else v)"

fun collectIDsAndRefs :: "Element \<Rightarrow> Validator \<Rightarrow> Validator" where
  "collectIDsAndRefs (Element ns ln attrs children txt) v =
     fold collectIDsAndRefs children
       (fold (collectAttr (Element ns ln attrs children txt)) attrs v)"

text \<open>\<^verbatim>\<open>validateIDREFs\<close>: one pass over the collected IDREF values.\<close>

definition validateIDREFs :: "Validator \<Rightarrow> Validator" where
  "validateIDREFs v =
     fold (\<lambda>(idref, elem) v.
             if map_of (vl_ids v) idref = None
             then addViolation v elem [] ''cvc-id.1''
                    (''There is no ID/IDREF binding for IDREF '' @ [CHR 0x27] @ idref @ [CHR 0x27])
                    [] idref
             else v)
       (vl_idRefs v) v"

text \<open>
  \<^verbatim>\<open>Validator.Validate\<close>: the violations returned and the validator as the call leaves
  it. A nil document is \<open>None\<close>. \<^verbatim>\<open>validateElement(root, nil)\<close> reads the schema and the
  document and appends to the violations only; \<open>validateElement root\<close> stands for the
  violations it appends.
\<close>

definition Validate ::
  "(Element \<Rightarrow> Violation list) \<Rightarrow> Validator \<Rightarrow> Document option
   \<Rightarrow> Violation list \<times> Validator" where
  "Validate validateElement v doc =
     (case doc of
        None \<Rightarrow>
          ([\<lparr>v_Element = None, v_Attribute = [], v_Code = ''xsd-null-document'',
             v_Message = ''Document is null'', v_Expected = [], v_Actual = []\<rparr>], v)
      | Some d \<Rightarrow>
          (case DocumentElement d of
             None \<Rightarrow>
               ([\<lparr>v_Element = None, v_Attribute = [], v_Code = ''xsd-no-root'',
                  v_Message = ''Document has no root element'', v_Expected = [],
                  v_Actual = []\<rparr>], v)
           | Some root \<Rightarrow>
               (let v = v\<lparr>vl_violations := [], vl_ids := [], vl_idRefs := []\<rparr>;
                    v = collectIDsAndRefs root v;
                    v = v\<lparr>vl_violations := vl_violations v @ validateElement root\<rparr>;
                    v = validateIDREFs v;
                    v = (case vl_idConstraints v of
                           None \<Rightarrow> v
                         | Some icv \<Rightarrow>
                             (let (idViolations, icv) = icvValidate icv root
                              in v\<lparr>vl_violations := vl_violations v @ idViolations,
                                   vl_idConstraints := Some icv\<rparr>))
                in (vl_violations v, v))))"

subsection \<open>Notions for stating what the document walk collects\<close>

text \<open>
  The attributes of a document in the order of the walk (an element's attributes, then
  its children from left to right), each with the element that carries it; the two
  tests on attribute names the walk makes; the violations it builds; and one step of the
  walk on such a pair.
\<close>

fun elemAttrs :: "Element \<Rightarrow> (Element \<times> Attr) list" where
  "elemAttrs (Element ns ln attrs children txt) =
     map (Pair (Element ns ln attrs children txt)) attrs @ concat (map elemAttrs children)"

definition isIDAttr :: "Attr \<Rightarrow> bool" where
  "isIDAttr a = (a_LocalName a = ''id'' \<or> a_LocalName a = ''ID'')"

definition isIDREFAttr :: "Attr \<Rightarrow> bool" where
  "isIDREFAttr a =
     (a_LocalName a \<in> {''target'', ''ref'', ''idref'', ''IDREF'', ''idlocation'', ''sendid''}
      \<and> a_NodeValue a \<noteq> [])"

definition duplicateIDViolation :: "Element \<times> Attr \<Rightarrow> Violation" where
  "duplicateIDViolation p =
     \<lparr>v_Element = Some (fst p), v_Attribute = a_LocalName (snd p), v_Code = ''cvc-id.2'',
      v_Message = ''Duplicate ID value '' @ [CHR 0x27] @ a_NodeValue (snd p) @ [CHR 0x27],
      v_Expected = [], v_Actual = a_NodeValue (snd p)\<rparr>"

definition missingIDViolation :: "string \<times> Element \<Rightarrow> Violation" where
  "missingIDViolation p =
     \<lparr>v_Element = Some (snd p), v_Attribute = [], v_Code = ''cvc-id.1'',
      v_Message = ''There is no ID/IDREF binding for IDREF '' @ [CHR 0x27] @ fst p @ [CHR 0x27],
      v_Expected = [], v_Actual = fst p\<rparr>"

text \<open>
  \<open>repeated key xs\<close>: the elements of \<open>xs\<close> whose key occurs at an earlier position of
  \<open>xs\<close>, in order.
\<close>
definition repeated :: "('a \<Rightarrow> 'k) \<Rightarrow> 'a list \<Rightarrow> 'a list" where
  "repeated key xs = map (\<lambda>k. xs ! k) (filter (\<lambda>k. key (xs ! k) \<in> key ` set (take k xs)) [0..<length xs])"

definition collectStep :: "Element \<times> Attr \<Rightarrow> Validator \<Rightarrow> Validator" where
  "collectStep p = collectAttr (fst p) (snd p)"

section \<open>Built-in datatype registry (builtin\_types.go)\<close>

text \<open>
  \<^verbatim>\<open>BuiltinType\<close> pairs a name with a validator function. A Go function value is
  represented by the name of the function it denotes.
\<close>

record BuiltinType =
  bt_Name :: string
  bt_Validator :: string

text \<open>The registry filled by \<^verbatim>\<open>registerBuiltinTypes\<close>, in the order of the source.\<close>

definition builtinTypes :: "(string \<times> BuiltinType) list" where
  "builtinTypes =
   [(''string'', \<lparr>bt_Name = ''string'', bt_Validator = ''validateString''\<rparr>),
    (''boolean'', \<lparr>bt_Name = ''boolean'', bt_Validator = ''validateBoolean''\<rparr>),
    (''decimal'', \<lparr>bt_Name = ''decimal'', bt_Validator = ''validateDecimal''\<rparr>),
    (''float'', \<lparr>bt_Name = ''float'', bt_Validator = ''validateFloat''\<rparr>),
    (''double'', \<lparr>bt_Name = ''double'', bt_Validator = ''validateDouble''\<rparr>),
    (''duration'', \<lparr>bt_Name = ''duration'', bt_Validator = ''validateDuration''\<rparr>),
    (''dateTime'', \<lparr>bt_Name = ''dateTime'', bt_Validator = ''validateDateTime''\<rparr>),
    (''time'', \<lparr>bt_Name = ''time'', bt_Validator = ''validateTime''\<rparr>),
    (''date'', \<lparr>bt_Name = ''date'', bt_Validator = ''validateDate''\<rparr>),
    (''gYearMonth'', \<lparr>bt_Name = ''gYearMonth'', bt_Validator = ''validateGYearMonth''\<rparr>),
    (''gYear'', \<lparr>bt_Name = ''gYear'', bt_Validator = ''validateGYear''\<rparr>),
    (''gMonthDay'', \<lparr>bt_Name = ''gMonthDay'', bt_Validator = ''validateGMonthDay''\<rparr>),
    (''gDay'', \<lparr>bt_Name = ''gDay'', bt_Validator = ''validateGDay''\<rparr>),
    (''gMonth'', \<lparr>bt_Name = ''gMonth'', bt_Validator = ''validateGMonth''\<rparr>),
    (''hexBinary'', \<lparr>bt_Name = ''hexBinary'', bt_Validator = ''validateHexBinary''\<rparr>),
    (''base64Binary'', \<lparr>bt_Name = ''base64Binary'', bt_Validator = ''validateBase64Binary''\<rparr>),
    (''anyURI'', \<lparr>bt_Name = ''anyURI'', bt_Validator = ''validateAnyURI''\<rparr>),
    (''QName'', \<lparr>bt_Name = ''QName'', bt_Validator = ''validateQName''\<rparr>),
    (''NOTATION'', \<lparr>bt_Name = ''NOTATION'', bt_Validator = ''validateNOTATION''\<rparr>),
    (''normalizedString'', \<lparr>bt_Name = ''normalizedString'', bt_Validator = ''validateNormalizedString''\<rparr>),
    (''token'', \<lparr>bt_Name = ''token'', bt_Validator = ''validateToken''\<rparr>),
    (''language'', \<lparr>bt_Name = ''language'', bt_Validator = ''validateLanguage''\<rparr>),
    (''Name'', \<lparr>bt_Name = ''Name'', bt_Validator = ''validateName''\<rparr>),
    (''NCName'', \<lparr>bt_Name = ''NCName'', bt_Validator = ''validateNCName''\<rparr>),
    (''ID'', \<lparr>bt_Name = ''ID'', bt_Validator = ''validateID''\<rparr>),
    (''IDREF'', \<lparr>bt_Name = ''IDREF'', bt_Validator = ''validateIDREF''\<rparr>),
    (''IDREFS'', \<lparr>bt_Name = ''IDREFS'', bt_Validator = ''validateIDREFS''\<rparr>),
    (''ENTITY'', \<lparr>bt_Name = ''ENTITY'', bt_Validator = ''validateENTITY''\<rparr>),
    (''ENTITIES'', \<lparr>bt_Name = ''ENTITIES'', bt_Validator = ''validateENTITIES''\<rparr>),
    (''NMTOKEN'', \<lparr>bt_Name = ''NMTOKEN'', bt_Validator = ''validateNMTOKEN''\<rparr>),
    (''NMTOKENS'', \<lparr>bt_Name = ''NMTOKENS'', bt_Validator = ''validateNMTOKENS''\<rparr>),
    (''integer'', \<lparr>bt_Name = ''integer'', bt_Validator = ''validateInteger''\<rparr>),
    (''nonPositiveInteger'', \<lparr>bt_Name = ''nonPositiveInteger'', bt_Validator = ''validateNonPositiveInteger''\<rparr>),
    (''negativeInteger'', \<lparr>bt_Name = ''negativeInteger'', bt_Validator = ''validateNegativeInteger''\<rparr>),
    (''long'', \<lparr>bt_Name = ''long'', bt_Validator = ''validateLong''\<rparr>),
    (''int'', \<lparr>bt_Name = ''int'', bt_Validator = ''validateInt''\<rparr>),
    (''short'', \<lparr>bt_Name = ''short'', bt_Validator = ''validateShort''\<rparr>),
    (''byte'', \<lparr>bt_Name = ''byte'', bt_Validator = ''validateByte''\<rparr>),
    (''nonNegativeInteger'', \<lparr>bt_Name = ''nonNegativeInteger'', bt_Validator = ''validateNonNegativeInteger''\<rparr>),
    (''unsignedLong'', \<lparr>bt_Name = ''unsignedLong'', bt_Validator = ''validateUnsignedLong''\<rparr>),
    (''unsignedInt'', \<lparr>bt_Name = ''unsignedInt'', bt_Validator = ''validateUnsignedInt''\<rparr>),
    (''unsignedShort'', \<lparr>bt_Name = ''unsignedShort'', bt_Validator = ''validateUnsignedShort''\<rparr>),
    (''unsignedByte'', \<lparr>bt_Name = ''unsignedByte'', bt_Validator = ''validateUnsignedByte''\<rparr>),
    (''positiveInteger'', \<lparr>bt_Name = ''positiveInteger'', bt_Validator = ''validatePositiveInteger''\<rparr>)]"

text \<open>
  \<^verbatim>\<open>GetBuiltinType\<close>: strip the namespace prefix, if a colon is present, then
  look the rest up. A nil result is \<open>None\<close>.
\<close>

definition GetBuiltinType :: "string \<Rightarrow> BuiltinType option" where
  "GetBuiltinType name =
     (let idx = Index name '':'';
          name' = (if idx \<ge> 0 then drop (nat (idx + 1)) name else name)
      in map_of builtinTypes name')"

definition IsBuiltinType :: "string \<Rightarrow> bool" where
  "IsBuiltinType name = (GetBuiltinType name \<noteq> None)"

text \<open>
  \<^verbatim>\<open>GetBuiltinTypeValidator\<close> strips a prefix itself and then calls
  \<^verbatim>\<open>GetBuiltinType\<close>, which strips once more.
\<close>

definition GetBuiltinTypeValidator :: "string \<Rightarrow> string option" where
  "GetBuiltinTypeValidator typeName =
     (let idx = Index typeName '':'';
          typeName' = (if idx \<ge> 0 then drop (nat (idx + 1)) typeName else typeName)
      in case GetBuiltinType typeName' of
           Some builtinType \<Rightarrow> Some (bt_Validator builtinType)
         | None \<Rightarrow> None)"

text \<open>
  For stating what the two lookups consult: the part of a name after its first colon
  (the whole name when it has no colon), which is what the prefix stripping of both
  functions computes.
\<close>

definition afterFirstColon :: "string \<Rightarrow> string" where
  "afterFirstColon name =
     (let idx = Index name '':''
      in if idx \<ge> 0 then drop (nat (idx + 1)) name else name)"

section \<open>Resolution of group references (schema.go)\<close>

text \<open>
  \<^verbatim>\<open>resolveParticlesWithVisited\<close> assigns to the \<^verbatim>\<open>Particles\<close> field of the nested
  \<^verbatim>\<open>*ModelGroup\<close> particles it walks, and those objects are shared with the bodies of
  the named groups. So a model group is an object of a store, a particle refers to it
  by its address, and the function passes the store along. The store is the list of
  the objects allocated so far: the address of an object is its position, and
  \<^verbatim>\<open>&ModelGroup{...}\<close> appends. Slices are values: an assignment to \<^verbatim>\<open>Particles\<close>
  installs a new slice and leaves the one a loop is ranging over as it was. Particles
  other than group references and model groups are kept as they are.
\<close>

type_synonym addr = nat

datatype RParticle =
    RElementDecl ElementDecl
  | RElementRef QName int int
  | RAnyElement string string int int
  | RGroupRef QName int int
  | RModelGroup addr

record ModelGroup =
  mg_Kind :: string
  mg_Particles :: "RParticle list"
  mg_MinOcc :: int
  mg_MaxOcc :: int

type_synonym store = "ModelGroup list"

definition deref :: "store \<Rightarrow> addr \<Rightarrow> ModelGroup option" where
  "deref h a = (if a < length h then Some (h ! a) else None)"

text \<open>
  What a call does: it returns a value, or it follows a pointer to no object
  (\<open>NilDeref\<close>, a panic in Go), or it is still running when the recursion is \<open>fuel\<close>
  calls deep (\<open>NoFuel\<close>). A call that is \<open>NoFuel\<close> for every amount of fuel never
  returns: in Go the recursion grows until the stack limit stops the program.
\<close>

datatype 'a outcome = Returned 'a | NilDeref | NoFuel

text \<open>
  The function: \<open>groups\<close> is \<^verbatim>\<open>s.Groups\<close>, the state is the store and the visited map
  (the list of the names marked), the result is the \<^verbatim>\<open>resolved\<close> slice with the state
  the call leaves. The fuel drops by one at each nested call; the loop over the
  particles of one call runs at constant fuel.
\<close>

fun resolveParticlesWithVisited ::
  "nat \<Rightarrow> (QName \<times> addr) list \<Rightarrow> RParticle list \<Rightarrow> store \<times> QName list
   \<Rightarrow> (RParticle list \<times> store \<times> QName list) outcome" where
  "resolveParticlesWithVisited 0 groups particles st = NoFuel"
| "resolveParticlesWithVisited (Suc fuel) groups [] st = Returned ([], st)"
| "resolveParticlesWithVisited (Suc fuel) groups (p # particles) (h, visited) =
     (let continue = (\<lambda>kept st'.
            case resolveParticlesWithVisited (Suc fuel) groups particles st' of
              Returned (resolved, st'') \<Rightarrow> Returned (kept # resolved, st'')
            | NilDeref \<Rightarrow> NilDeref
            | NoFuel \<Rightarrow> NoFuel)
      in case p of
           RGroupRef ref minOcc maxOcc \<Rightarrow>
             if ref \<in> set visited then continue p (h, visited)
             else
               (case map_of groups ref of
                  Some g \<Rightarrow>
                    (case deref h g of
                       None \<Rightarrow> NilDeref
                     | Some grp \<Rightarrow>
                         (case resolveParticlesWithVisited fuel groups (mg_Particles grp)
                                 (h, ref # visited) of
                            Returned (inner, h', visited') \<Rightarrow>
                              (let resolvedGroup =
                                     \<lparr>mg_Kind = mg_Kind grp, mg_Particles = inner,
                                      mg_MinOcc = (if minOcc = 0 \<and> maxOcc = 0
                                                   then mg_MinOcc grp else minOcc),
                                      mg_MaxOcc = (if minOcc = 0 \<and> maxOcc = 0
                                                   then mg_MaxOcc grp else maxOcc)\<rparr>
                               in continue (RModelGroup (length h'))
                                    (h' @ [resolvedGroup], removeAll ref visited'))
                          | NilDeref \<Rightarrow> NilDeref
                          | NoFuel \<Rightarrow> NoFuel))
                | None \<Rightarrow> continue p (h, removeAll ref (ref # visited)))
         | RModelGroup a \<Rightarrow>
             (case deref h a of
                None \<Rightarrow> NilDeref
              | Some pt \<Rightarrow>
                  (case resolveParticlesWithVisited fuel groups (mg_Particles pt) (h, visited) of
                     Returned (inner, h', visited') \<Rightarrow>
                       continue p (h'[a := (h' ! a)\<lparr>mg_Particles := inner\<rparr>], visited')
                   | NilDeref \<Rightarrow> NilDeref
                   | NoFuel \<Rightarrow> NoFuel))
         | _ \<Rightarrow> continue p (h, visited))"

text \<open>\<^verbatim>\<open>resolveParticles\<close> starts with an empty visited map.\<close>

definition resolveParticles ::
  "nat \<Rightarrow> (QName \<times> addr) list \<Rightarrow> RParticle list \<Rightarrow> store
   \<Rightarrow> (RParticle list \<times> store \<times> QName list) outcome" where
  "resolveParticles fuel groups particles h =
     resolveParticlesWithVisited fuel groups particles (h, [])"

section \<open>Parsing a restriction (schema.go)\<close>

text \<open>
  \<^verbatim>\<open>parseRestriction\<close>, as far as it builds \<^verbatim>\<open>r.Base\<close> and \<^verbatim>\<open>r.Facets\<close>. The children
  \<^verbatim>\<open>sequence\<close>, \<^verbatim>\<open>choice\<close>, \<^verbatim>\<open>all\<close>, \<^verbatim>\<open>group\<close>, \<^verbatim>\<open>attribute\<close> and \<^verbatim>\<open>anyAttribute\<close>
  set the fields \<^verbatim>\<open>Content\<close>, \<^verbatim>\<open>Attributes\<close> and \<^verbatim>\<open>AnyAttribute\<close>, which are left out,
  and then continue with the next child. Two functions of the schema are parameters:
  \<open>parseQName\<close>, which resolves the \<^verbatim>\<open>base\<close> attribute, and \<open>hasInlineSimpleType\<close>,
  which tells whether \<^verbatim>\<open>parseInlineSimpleType\<close> returns a type for a child (the type
  itself is registered in the schema and named after the child's index).
\<close>

definition XSDNamespace :: string where
  "XSDNamespace = ''http://www.w3.org/2001/XMLSchema''"

text \<open>
  The loop that looks for an enumeration facet already in \<^verbatim>\<open>r.Facets\<close> and appends the
  value to the first one it finds; \<open>None\<close> when there is none (\<^verbatim>\<open>found\<close> stays false).
\<close>

fun addEnumerationValue :: "string \<Rightarrow> Facet list \<Rightarrow> Facet list option" where
  "addEnumerationValue val [] = None"
| "addEnumerationValue val (EnumerationFacet vs # fs) = Some (EnumerationFacet (vs @ [val]) # fs)"
| "addEnumerationValue val (f # fs) = map_option ((#) f) (addEnumerationValue val fs)"

definition parseRestrictionChild ::
  "string \<Rightarrow> (Element \<Rightarrow> bool) \<Rightarrow> nat \<times> Element \<Rightarrow> Restriction \<Rightarrow> Restriction" where
  "parseRestrictionChild targetNamespace hasInlineSimpleType ic r =
     (let (i, child) = ic in
      if e_NamespaceURI child \<noteq> XSDNamespace then r
      else
        (let childName = e_LocalName child in
         if childName = ''simpleType'' \<and> r_Base r = QName [] [] then
           (if hasInlineSimpleType child
            then r\<lparr>r_Base := QName targetNamespace (''_restriction_base_'' @ Itoa (int i))\<rparr>
            else r)
         else if childName = ''sequence'' \<or> childName = ''choice'' \<or> childName = ''all''
                 \<or> childName = ''group'' \<or> childName = ''attribute''
                 \<or> childName = ''anyAttribute'' then r
         else
           (let val = GetAttribute child ''value'';
                facetName = childName
            in case ParseFacet facetName val of
                 None \<Rightarrow> r
               | Some facet \<Rightarrow>
                   if facetName = ''enumeration'' then
                     (case addEnumerationValue val (r_Facets r) of
                        Some facets \<Rightarrow> r\<lparr>r_Facets := facets\<rparr>
                      | None \<Rightarrow> r\<lparr>r_Facets := r_Facets r @ [facet]\<rparr>)
                   else r\<lparr>r_Facets := r_Facets r @ [facet]\<rparr>)))"

definition parseRestriction ::
  "string \<Rightarrow> (string \<Rightarrow> QName) \<Rightarrow> (Element \<Rightarrow> bool) \<Rightarrow> Element \<Rightarrow> Restriction" where
  "parseRestriction targetNamespace parseQName hasInlineSimpleType elem =
     (let base = GetAttribute elem ''base'';
          r = \<lparr>r_Base = (if base \<noteq> [] then parseQName base else QName [] []), r_Facets = []\<rparr>;
          children = e_Children elem
      in fold (parseRestrictionChild targetNamespace hasInlineSimpleType)
           (zip [0..<length children] children) r)"

text \<open>
  For stating what the parser builds: the enumeration facets of a list, and the
  \<^verbatim>\<open>enumeration\<close> children of a restriction element.
\<close>

fun isEnumerationFacet :: "Facet \<Rightarrow> bool" where
  "isEnumerationFacet (EnumerationFacet vs) = True"
| "isEnumerationFacet f = False"

definition isEnumerationChild :: "Element \<Rightarrow> bool" where
  "isEnumerationChild child =
     (e_NamespaceURI child = XSDNamespace \<and> e_LocalName child = ''enumeration'')"

text \<open>
  The relation the parser keeps between the children read so far and the facets built:
  one enumeration facet as soon as an \<^verbatim>\<open>enumeration\<close> child has been read, none before,
  and the values of the \<^verbatim>\<open>enumeration\<close> children in the order read.
\<close>

definition enumInv :: "Element list \<Rightarrow> Facet list \<Rightarrow> bool" where
  "enumInv cs fs =
     (length (filter isEnumerationFacet fs) = (if filter isEnumerationChild cs = [] then 0 else 1)
      \<and> CombineEnumerations fs = map (\<lambda>c. GetAttribute c ''value'') (filter isEnumerationChild cs))"

section \<open>Example inputs\<close>

text \<open>
  A schema whose type derivations form a cycle: \<open>A\<close> extends \<open>B\<close>, \<open>B\<close> restricts
  \<open>A\<close>; \<open>C\<close> is unrelated to both.
\<close>

definition typeA :: XType where
  "typeA = ComplexType (QName ''urn:t'' ''A'')
     (Some (ComplexContent (Some \<lparr>ext_Base = QName ''urn:t'' ''B''\<rparr>) None))"

definition typeB :: XType where
  "typeB = ComplexType (QName ''urn:t'' ''B'')
     (Some (ComplexContent None (Some \<lparr>r_Base = QName ''urn:t'' ''A'', r_Facets = []\<rparr>)))"

definition typeC :: XType where
  "typeC = SimpleType (QName ''urn:t'' ''C'') None"

definition cyclicSchema :: Schema where
  "cyclicSchema = Schema ''urn:t'' []
     [(QName ''urn:t'' ''A'', typeA), (QName ''urn:t'' ''B'', typeB), (QName ''urn:t'' ''C'', typeC)]
     [] []"

text \<open>
  A schema with the head element \<open>vehicle\<close> of complex type \<open>VehicleType\<close> and the
  element \<open>boat\<close>, declared in \<open>vehicle\<close>'s substitution group with the simple type
  \<open>BoatType\<close>, which is not derived from \<open>VehicleType\<close>.
\<close>

definition VehicleType :: XType where
  "VehicleType = ComplexType (QName ''urn:v'' ''VehicleType'') (Some OtherContent)"

definition BoatType :: XType where
  "BoatType = SimpleType (QName ''urn:v'' ''BoatType'')
     (Some \<lparr>r_Base = QName ''http://www.w3.org/2001/XMLSchema'' ''string'', r_Facets = []\<rparr>)"

definition vehicleSchema :: Schema where
  "vehicleSchema = Schema ''urn:v''
     [(QName ''urn:v'' ''vehicle'',
         \<lparr>ed_Name = QName ''urn:v'' ''vehicle'', ed_Type = Some VehicleType,
           ed_Constraints = []\<rparr>),
      (QName ''urn:v'' ''boat'',
         \<lparr>ed_Name = QName ''urn:v'' ''boat'', ed_Type = Some BoatType,
           ed_Constraints = []\<rparr>)]
     [(QName ''urn:v'' ''VehicleType'', VehicleType), (QName ''urn:v'' ''BoatType'', BoatType)]
     [(QName ''urn:v'' ''vehicle'', [QName ''urn:v'' ''boat''])]
     []"

definition boatElement :: Element where
  "boatElement = Element ''urn:v'' ''boat'' [] [] ''''"

text \<open>
  A schema whose root element declares the key \<open>itemKey\<close> (selector \<open>item\<close>, field
  \<open>@code\<close>), and a document with two items of different codes.
\<close>

definition itemKey :: IdentityConstraint where
  "itemKey = \<lparr>ic_Name = ''itemKey'', ic_Kind = ''key'', ic_Selector = Some ''item'',
              ic_Fields = [''@code''], ic_Refer = QName [] []\<rparr>"

definition keySchema :: Schema where
  "keySchema = Schema []
     [(QName [] ''list'', \<lparr>ed_Name = QName [] ''list'', ed_Type = None,
                           ed_Constraints = [itemKey]\<rparr>)]
     [] [] []"

definition itemA :: Element where
  "itemA = Element [] ''item'' [Attr [] ''code'' ''code'' ''a''] [] []"

definition itemB :: Element where
  "itemB = Element [] ''item'' [Attr [] ''code'' ''code'' ''b''] [] []"

definition keyRoot :: Element where
  "keyRoot = Element [] ''list'' [] [itemA, itemB] []"

definition keyDocument :: Document where
  "keyDocument = Document (Some keyRoot)"

text \<open>
  A document with ID and IDREF attributes: the value \<open>x\<close> is an ID twice, \<open>y\<close> is
  referred to twice and is no ID, \<open>x\<close> is referred to once, and one \<open>idref\<close> is empty.
\<close>

definition idChildA :: Element where
  "idChildA = Element [] ''a'' [Attr [] ''id'' ''id'' ''x'', Attr [] ''ref'' ''ref'' ''y''] [] []"

definition idChildB :: Element where
  "idChildB = Element [] ''b''
     [Attr [] ''ID'' ''ID'' ''z'', Attr [] ''target'' ''target'' ''x'', Attr [] ''idref'' ''idref'' []]
     [] []"

definition idChildC :: Element where
  "idChildC = Element [] ''c'' [Attr [] ''ref'' ''ref'' ''y'', Attr [] ''name'' ''name'' ''id''] [] []"

definition idRoot :: Element where
  "idRoot = Element [] ''r'' [Attr [] ''id'' ''id'' ''x''] [idChildA, idChildB, idChildC] []"

text \<open>
  A restriction of \<open>xs:string\<close> with the enumeration value \<open>a\<close> written twice, and plain
  stand-ins for the two schema functions that \<open>parseRestriction\<close> takes.
\<close>

definition enumerationChild :: "string \<Rightarrow> Element" where
  "enumerationChild val =
     Element ''http://www.w3.org/2001/XMLSchema'' ''enumeration''
       [Attr [] ''value'' ''value'' val] [] []"

definition repeatedEnumRestriction :: Element where
  "repeatedEnumRestriction =
     Element ''http://www.w3.org/2001/XMLSchema'' ''restriction''
       [Attr [] ''base'' ''base'' ''xs:string'']
       [enumerationChild ''a'', enumerationChild ''a''] []"

definition localQName :: "string \<Rightarrow> QName" where
  "localQName name = QName [] name"

definition noInlineSimpleType :: "Element \<Rightarrow> bool" where
  "noInlineSimpleType child = False"

text \<open>
  The store the parser builds for the schema with the one named group
  \<^verbatim>\<open><xs:group name="G"><xs:sequence><xs:sequence><xs:group ref="G"/></xs:sequence>\<close>
  \<^verbatim>\<open><xs:group ref="G"/></xs:sequence></xs:group>\<close>: at address 0 the body of \<open>G\<close>, at
  address 1 the nested sequence. Then two groups that refer to each other without a
  nested sequence.
\<close>

definition groupG :: QName where
  "groupG = QName [] ''G''"

definition selfRefStore :: store where
  "selfRefStore =
     [\<lparr>mg_Kind = ''sequence'', mg_Particles = [RModelGroup (Suc 0), RGroupRef groupG 1 1],
       mg_MinOcc = 1, mg_MaxOcc = 1\<rparr>,
      \<lparr>mg_Kind = ''sequence'', mg_Particles = [RGroupRef groupG 1 1],
       mg_MinOcc = 1, mg_MaxOcc = 1\<rparr>]"

definition selfRefGroups :: "(QName \<times> addr) list" where
  "selfRefGroups = [(groupG, 0)]"

definition groupH :: QName where
  "groupH = QName [] ''H''"

definition mutualStore :: store where
  "mutualStore =
     [\<lparr>mg_Kind = ''sequence'', mg_Particles = [RGroupRef groupH 1 1],
       mg_MinOcc = 1, mg_MaxOcc = 1\<rparr>,
      \<lparr>mg_Kind = ''choice'', mg_Particles = [RGroupRef groupG 1 1],
       mg_MinOcc = 1, mg_MaxOcc = 1\<rparr>]"

definition mutualGroups :: "(QName \<times> addr) list" where
  "mutualGroups = [(groupG, 0), (groupH, 1)]"

text \<open>
  The store after the nested sequence of \<open>G\<close> has been resolved once: the sequence at
  address 1 now holds the copy of \<open>G\<close> made at address 2, whose first particle is the
  sequence at address 1 again.
\<close>

definition cyclicStore :: store where
  "cyclicStore =
     [\<lparr>mg_Kind = ''sequence'', mg_Particles = [RModelGroup (Suc 0), RGroupRef groupG 1 1],
       mg_MinOcc = 1, mg_MaxOcc = 1\<rparr>,
      \<lparr>mg_Kind = ''sequence'', mg_Particles = [RModelGroup 2],
       mg_MinOcc = 1, mg_MaxOcc = 1\<rparr>,
      \<lparr>mg_Kind = ''sequence'', mg_Particles = [RModelGroup (Suc 0), RGroupRef groupG 1 1],
       mg_MinOcc = 1, mg_MaxOcc = 1\<rparr>]"

section \<open>The steps of the type-compatibility walk\<close>

text \<open>One step of the walk, and the registered name of the type it moves to.\<close>

lemma walk_unfold:
  "isTypeCompatibleWithCycleDetection s (Some a) (Some e) visited =
     (if Name a = Name e then True
      else if Name a \<in> visited then False
      else (case derivationBase s a of
              Some b \<Rightarrow> isTypeCompatibleWithCycleDetection s (Some b) (Some e) (insert (Name a) visited)
            | None \<Rightarrow> False))"
  by (subst isTypeCompatibleWithCycleDetection.simps)
     (auto simp: derivationBase_def Let_def split: XType.splits option.splits Content.splits)

lemma walk_nil:
  "isTypeCompatibleWithCycleDetection s None e visited = False"
  "isTypeCompatibleWithCycleDetection s a None visited = False"
  by (subst isTypeCompatibleWithCycleDetection.simps, simp split: option.splits)+

lemma derivationBase_in: "derivationBase s a = Some b \<Longrightarrow> Name b \<in> typeNames s"
  by (auto simp: derivationBase_def split: XType.splits option.splits Content.splits
      dest: extensionBase_in restrictionBase_in)

section \<open>Substitution-group matching\<close>

text \<open>
  Claim C1 fails on the code: \<open>boat\<close> is listed under \<open>vehicle\<close>, its type
  \<open>BoatType\<close> neither equals \<open>VehicleType\<close> nor derives from it (the compatibility
  walk answers false), and the matcher still accepts a \<open>boat\<close> element where
  \<open>vehicle\<close> is expected, through the fallback of \<^verbatim>\<open>isSubstitutableFor\<close> that allows
  the substitution whenever both declarations have a type.
\<close>

theorem incompatible_substitute_accepted:
  "QName (e_NamespaceURI boatElement) (e_LocalName boatElement) \<noteq> QName ''urn:v'' ''vehicle''
   \<and> map_of (SubstitutionGroups vehicleSchema) (QName ''urn:v'' ''vehicle'')
       = Some [QName ''urn:v'' ''boat'']
   \<and> map_option ed_Type (map_of (ElementDecls vehicleSchema) (QName ''urn:v'' ''boat''))
       = Some (Some BoatType)
   \<and> map_option ed_Type (map_of (ElementDecls vehicleSchema) (QName ''urn:v'' ''vehicle''))
       = Some (Some VehicleType)
   \<and> Name BoatType \<noteq> Name VehicleType
   \<and> derivationBase vehicleSchema BoatType = None
   \<and> isTypeCompatible vehicleSchema (Some BoatType) (Some VehicleType) = False
   \<and> isSubstitutableFor vehicleSchema (QName ''urn:v'' ''boat'') (QName ''urn:v'' ''vehicle'') = True
   \<and> elementMatchesParticle groupValid vehicleSchema boatElement
         (PElementRef (QName ''urn:v'' ''vehicle'')) = True"
proof -
  have db: "derivationBase vehicleSchema BoatType = None"
    by (simp add: derivationBase_def restrictionBase_def BoatType_def vehicleSchema_def
        VehicleType_def)
  have tc: "isTypeCompatible vehicleSchema (Some BoatType) (Some VehicleType) = False"
    unfolding isTypeCompatible_def
    by (subst walk_unfold) (simp add: db, simp add: BoatType_def VehicleType_def)
  have sub: "isSubstitutableFor vehicleSchema (QName ''urn:v'' ''boat'') (QName ''urn:v'' ''vehicle'')"
    unfolding vehicleSchema_def
    by (simp add: tc[unfolded vehicleSchema_def])
  show ?thesis
    using db tc sub
    by (simp add: boatElement_def, simp add: vehicleSchema_def BoatType_def VehicleType_def)
qed

section \<open>Validating a document twice with one validator\<close>

lemma keyRoot_selected: "evaluateSelector keyRoot (Some ''item'') = [itemA, itemB]"
  by code_simp

lemma itemA_fields: "extractFieldValues itemA [''@code''] = [''a'']"
  by code_simp

lemma itemB_fields: "extractFieldValues itemB [''@code''] = [''b'']"
  by code_simp

lemma NewValidator_keySchema:
  "NewValidator keySchema =
   \<lparr>vl_schema = keySchema, vl_idRefs = [], vl_ids = [], vl_violations = [],
    vl_idConstraints = Some \<lparr>icv_constraints = [(''itemKey'', itemKey)],
                             icv_keyValues = [(''itemKey'', [])]\<rparr>\<rparr>"
  by (simp add: NewValidator_def keySchema_def NewIdentityConstraintValidator_def AddConstraint_def
      itemKey_def)

lemma keyRoot_no_ids: "collectIDsAndRefs keyRoot v = v"
  by (simp add: keyRoot_def itemA_def itemB_def collectAttr_def idrefAttrs_def)

lemma icvValidate_first:
  "icvValidate \<lparr>icv_constraints = [(''itemKey'', itemKey)], icv_keyValues = [(''itemKey'', [])]\<rparr>
     keyRoot
   = ([], \<lparr>icv_constraints = [(''itemKey'', itemKey)],
           icv_keyValues = [(''itemKey'', [(''a'', [itemA]), (''b'', [itemB])])]\<rparr>)"
  apply (simp add: icvValidate_def collectKeys_def checkKeyref_def)
  apply (simp add: itemKey_def keyRoot_selected[unfolded itemKey_def] collectKeyNode_def
      itemA_fields itemB_fields keyValuesLookup_def keyValuesStore_def nullFieldViolations_def)
  done

lemma icvValidate_second:
  "map (\<lambda>x. (v_Code x, v_Element x))
     (fst (icvValidate \<lparr>icv_constraints = [(''itemKey'', itemKey)],
              icv_keyValues = [(''itemKey'', [(''a'', [itemA]), (''b'', [itemB])])]\<rparr> keyRoot))
   = [(''cvc-identity-constraint.4.1'', Some itemA), (''cvc-identity-constraint.4.1'', Some itemB)]"
  by code_simp

text \<open>
  Claim C2 fails on the code. The schema declares one key; the document has two items
  with the distinct key values \<open>a\<close> and \<open>b\<close>. The first call of \<open>Validate\<close> returns
  what the element validation reports and nothing else (no violation at all when the
  element validation reports none). The second call on the same validator and the same
  document returns two more violations, one \<open>cvc-identity-constraint.4.1\<close> (duplicate
  key) for each item: \<open>Validate\<close> resets the ID maps and the violations, but the key
  values recorded by the identity-constraint validator stay.
\<close>

theorem revalidation_reports_duplicate_keys:
  "fst (Validate validateElement (NewValidator keySchema) (Some keyDocument))
     = validateElement keyRoot
   \<and> fst (Validate (\<lambda>e. []) (NewValidator keySchema) (Some keyDocument)) = []
   \<and> map (\<lambda>x. (v_Code x, v_Element x))
        (fst (Validate validateElement
               (snd (Validate validateElement (NewValidator keySchema) (Some keyDocument)))
               (Some keyDocument)))
     = map (\<lambda>x. (v_Code x, v_Element x)) (validateElement keyRoot)
       @ [(''cvc-identity-constraint.4.1'', Some itemA),
          (''cvc-identity-constraint.4.1'', Some itemB)]
   \<and> length (fst (Validate (\<lambda>e. [])
               (snd (Validate (\<lambda>e. []) (NewValidator keySchema) (Some keyDocument)))
               (Some keyDocument))) = 2"
proof -
  have first: "Validate ve (NewValidator keySchema) (Some keyDocument)
     = (ve keyRoot,
        \<lparr>vl_schema = keySchema, vl_idRefs = [], vl_ids = [], vl_violations = ve keyRoot,
         vl_idConstraints = Some \<lparr>icv_constraints = [(''itemKey'', itemKey)],
            icv_keyValues = [(''itemKey'', [(''a'', [itemA]), (''b'', [itemB])])]\<rparr>\<rparr>)" for ve
    by (simp add: Validate_def keyDocument_def NewValidator_keySchema keyRoot_no_ids
        validateIDREFs_def icvValidate_first)
  have second: "map (\<lambda>x. (v_Code x, v_Element x))
        (fst (Validate ve
           \<lparr>vl_schema = keySchema, vl_idRefs = [], vl_ids = [], vl_violations = ve keyRoot,
            vl_idConstraints = Some \<lparr>icv_constraints = [(''itemKey'', itemKey)],
              icv_keyValues = [(''itemKey'', [(''a'', [itemA]), (''b'', [itemB])])]\<rparr>\<rparr>
           (Some keyDocument)))
     = map (\<lambda>x. (v_Code x, v_Element x)) (ve keyRoot)
       @ [(''cvc-identity-constraint.4.1'', Some itemA),
          (''cvc-identity-constraint.4.1'', Some itemB)]" for ve
    using icvValidate_second
    by (simp add: Validate_def keyDocument_def keyRoot_no_ids validateIDREFs_def split_beta)
  have twice: "length (fst (Validate (\<lambda>e. [])
               (snd (Validate (\<lambda>e. []) (NewValidator keySchema) (Some keyDocument)))
               (Some keyDocument))) = 2"
  proof -
    note s2 = second[of "\<lambda>e. []", simplified]
    have "length (map (\<lambda>x. (v_Code x, v_Element x))
            (fst (Validate (\<lambda>e. [])
               \<lparr>vl_schema = keySchema, vl_idRefs = [], vl_ids = [], vl_violations = [],
                vl_idConstraints = Some \<lparr>icv_constraints = [(''itemKey'', itemKey)],
                  icv_keyValues = [(''itemKey'', [(''a'', [itemA]), (''b'', [itemB])])]\<rparr>\<rparr>
               (Some keyDocument))))
          = length [(''cvc-identity-constraint.4.1'', Some itemA),
                    (''cvc-identity-constraint.4.1'', Some itemB)]"
      by (rule arg_cong[OF s2])
    then show ?thesis by (simp add: first)
  qed
  show ?thesis using twice by (simp add: first second)
qed

section \<open>Enumeration facets of a parsed restriction\<close>

lemma addEnum_none: "(addEnumerationValue v fs = None) = (filter isEnumerationFacet fs = [])"
  by (induction v fs rule: addEnumerationValue.induct) auto

lemma addEnum_one:
  "length (filter isEnumerationFacet fs) = 1 \<Longrightarrow>
   \<exists>fs'. addEnumerationValue v fs = Some fs'
        \<and> length (filter isEnumerationFacet fs') = 1
        \<and> CombineEnumerations fs' = CombineEnumerations fs @ [v]"
proof (induction v fs rule: addEnumerationValue.induct)
  case (1 val)
  then show ?case by simp
next
  case (2 val vs fs)
  then have "filter isEnumerationFacet fs = []" by simp
  then have "CombineEnumerations fs = []"
    by (induction fs rule: CombineEnumerations.induct) (auto split: if_splits)
  with 2 show ?case by simp
qed auto

lemma CombineEnumerations_append:
  "CombineEnumerations (fs @ gs) = CombineEnumerations fs @ CombineEnumerations gs"
  by (induction fs rule: CombineEnumerations.induct) auto

lemma CombineEnumerations_none:
  "filter isEnumerationFacet fs = [] \<Longrightarrow> CombineEnumerations fs = []"
  by (induction fs rule: CombineEnumerations.induct) (auto split: if_splits)

lemma ParseFacet_other:
  "name \<noteq> ''enumeration'' \<Longrightarrow> ParseFacet name v = Some f \<Longrightarrow> \<not> isEnumerationFacet f"
  by (auto simp: ParseFacet_def split: if_splits)

lemma ParseFacet_enum: "ParseFacet ''enumeration'' v = Some (EnumerationFacet [v])"
  by (simp add: ParseFacet_def)

lemma child_step:
  assumes "enumInv cs (r_Facets r)"
  shows "enumInv (cs @ [c]) (r_Facets (parseRestrictionChild tns inl (i, c) r))"
proof (cases "isEnumerationChild c")
  case True
  show ?thesis
  proof (cases "filter isEnumerationChild cs = []")
    case e: True
    then have "addEnumerationValue (GetAttribute c ''value'') (r_Facets r) = None"
      using assms by (simp add: enumInv_def addEnum_none)
    then show ?thesis
      using True e assms
      by (simp add: parseRestrictionChild_def isEnumerationChild_def ParseFacet_enum enumInv_def
          CombineEnumerations_append)
  next
    case ne: False
    then have one: "length (filter isEnumerationFacet (r_Facets r)) = 1"
      using assms by (simp add: enumInv_def)
    from addEnum_one[OF one, of "GetAttribute c ''value''"] obtain fs' where
      fs': "addEnumerationValue (GetAttribute c ''value'') (r_Facets r) = Some fs'"
      "length (filter isEnumerationFacet fs') = 1"
      "CombineEnumerations fs' = CombineEnumerations (r_Facets r) @ [GetAttribute c ''value'']"
      by blast
    then show ?thesis
      using True ne assms
      by (simp add: parseRestrictionChild_def isEnumerationChild_def ParseFacet_enum enumInv_def)
  qed
next
  case False
  have "r_Facets (parseRestrictionChild tns inl (i, c) r) = r_Facets r
        \<or> (\<exists>f. \<not> isEnumerationFacet f \<and> r_Facets (parseRestrictionChild tns inl (i, c) r) = r_Facets r @ [f])"
    using False ParseFacet_other[of "e_LocalName c" "GetAttribute c ''value''"]
    by (auto simp: parseRestrictionChild_def isEnumerationChild_def Let_def split: option.splits)
  then show ?thesis
    using False assms by (auto simp: enumInv_def CombineEnumerations_append CombineEnumerations_none)
qed

lemma fold_inv:
  "enumInv [] (r_Facets r) \<Longrightarrow>
   enumInv (map snd ics) (r_Facets (fold (parseRestrictionChild tns inl) ics r))"
proof (induction ics rule: rev_induct)
  case Nil
  then show ?case by simp
next
  case (snoc ic ics)
  then show ?case using child_step[of "map snd ics" _ "snd ic" tns inl "fst ic"] by simp
qed

text \<open>
  Claim C3, as stated, fails on the code: a restriction with the enumeration value \<open>a\<close>
  written twice is parsed into one enumeration facet whose values are \<open>a, a\<close>; the
  value is kept twice.
\<close>

theorem repeated_enumeration_value_kept_twice:
  "r_Facets (parseRestriction [] localQName noInlineSimpleType repeatedEnumRestriction)
     = [EnumerationFacet [''a'', ''a'']]
   \<and> \<not> distinct (CombineEnumerations
        (r_Facets (parseRestriction [] localQName noInlineSimpleType repeatedEnumRestriction)))"
proof -
  have "r_Facets (parseRestriction [] localQName noInlineSimpleType repeatedEnumRestriction)
        = [EnumerationFacet [''a'', ''a'']]"
    by code_simp
  then show ?thesis by simp
qed

text \<open>
  Claim C3, amended. For every restriction element, the \<^verbatim>\<open>enumeration\<close> children (in the
  XSD namespace) collapse into exactly one enumeration facet (none when there is no such
  child), and the values of that facet are the \<^verbatim>\<open>value\<close> attributes of those
  children in document order, every repetition kept.
\<close>

theorem enumerations_collapse_into_one_facet:
  "(let fs = r_Facets (parseRestriction targetNamespace parseQName hasInlineSimpleType elem);
        enums = filter isEnumerationChild (e_Children elem)
    in length (filter isEnumerationFacet fs) = (if enums = [] then 0 else 1)
     \<and> CombineEnumerations fs = map (\<lambda>c. GetAttribute c ''value'') enums)"
proof -
  let ?cs = "e_Children elem"
  have m: "map snd (zip [0..<length ?cs] ?cs) = ?cs" by (simp add: map_snd_zip)
  have "enumInv (map snd (zip [0..<length ?cs] ?cs))
          (r_Facets (parseRestriction targetNamespace parseQName hasInlineSimpleType elem))"
    unfolding parseRestriction_def Let_def
    by (rule fold_inv) (simp add: enumInv_def)
  then show ?thesis unfolding m by (simp add: enumInv_def Let_def)
qed

theorem enumerations_collapse_into_one_facet_witness:
  "length (filter isEnumerationFacet
      (r_Facets (parseRestriction [] localQName noInlineSimpleType repeatedEnumRestriction))) = 1
   \<and> CombineEnumerations
        (r_Facets (parseRestriction [] localQName noInlineSimpleType repeatedEnumRestriction))
     = [''a'', ''a'']"
proof -
  have e: "filter isEnumerationChild (e_Children repeatedEnumRestriction)
           = [enumerationChild ''a'', enumerationChild ''a'']"
    by (simp add: repeatedEnumRestriction_def enumerationChild_def isEnumerationChild_def
        XSDNamespace_def)
  have v: "GetAttribute (enumerationChild ''a'') ''value'' = ''a''"
    by (simp add: enumerationChild_def GetAttribute_def)
  show ?thesis
    using enumerations_collapse_into_one_facet
            [of "[]" localQName noInlineSimpleType repeatedEnumRestriction]
    by (simp add: Let_def e v)
qed

section \<open>Resolution of group references\<close>

lemma cyclic_never_returns:
  "resolveParticlesWithVisited n selfRefGroups (RModelGroup (Suc 0) # ps) (cyclicStore, vis) = NoFuel
   \<and> resolveParticlesWithVisited n selfRefGroups (RModelGroup 2 # ps) (cyclicStore, vis) = NoFuel"
proof (induction n arbitrary: ps vis)
  case 0
  show ?case by simp
next
  case (Suc n)
  have d1: "deref cyclicStore (Suc 0) = Some \<lparr>mg_Kind = ''sequence'', mg_Particles = [RModelGroup 2],
       mg_MinOcc = 1, mg_MaxOcc = 1\<rparr>"
    by (simp add: deref_def cyclicStore_def)
  have d2: "deref cyclicStore 2 = Some \<lparr>mg_Kind = ''sequence'',
       mg_Particles = [RModelGroup (Suc 0), RGroupRef groupG 1 1], mg_MinOcc = 1, mg_MaxOcc = 1\<rparr>"
    by (simp add: deref_def cyclicStore_def)
  show ?case using Suc.IH by (simp add: d1 d2)
qed

lemma first_particle:
  "resolveParticlesWithVisited (Suc (Suc (Suc m))) selfRefGroups [RGroupRef groupG 1 1]
     (selfRefStore, [])
   = Returned ([RModelGroup 2],
       selfRefStore @ [\<lparr>mg_Kind = ''sequence'',
          mg_Particles = [RModelGroup (Suc 0), RGroupRef groupG 1 1], mg_MinOcc = 1, mg_MaxOcc = 1\<rparr>],
       [])"
  by (simp add: selfRefGroups_def selfRefStore_def deref_def)

lemma small_fuel:
  "resolveParticles 0 selfRefGroups [RModelGroup (Suc 0), RGroupRef groupG 1 1] selfRefStore = NoFuel"
  "resolveParticles (Suc 0) selfRefGroups [RModelGroup (Suc 0), RGroupRef groupG 1 1] selfRefStore = NoFuel"
  "resolveParticles (Suc (Suc 0)) selfRefGroups [RModelGroup (Suc 0), RGroupRef groupG 1 1] selfRefStore = NoFuel"
  "resolveParticles (Suc (Suc (Suc 0))) selfRefGroups [RModelGroup (Suc 0), RGroupRef groupG 1 1] selfRefStore = NoFuel"
  by (simp_all add: resolveParticles_def selfRefGroups_def selfRefStore_def deref_def)

lemma large_fuel:
  "resolveParticles (Suc (Suc (Suc (Suc m)))) selfRefGroups [RModelGroup (Suc 0), RGroupRef groupG 1 1] selfRefStore = NoFuel"
proof -
  have upd: "(selfRefStore @ [\<lparr>mg_Kind = ''sequence'',
          mg_Particles = [RModelGroup (Suc 0), RGroupRef groupG 1 1], mg_MinOcc = 1, mg_MaxOcc = 1\<rparr>])
        [Suc 0 := ((selfRefStore @ [\<lparr>mg_Kind = ''sequence'',
          mg_Particles = [RModelGroup (Suc 0), RGroupRef groupG 1 1], mg_MinOcc = 1, mg_MaxOcc = 1\<rparr>]) ! Suc 0)
             \<lparr>mg_Particles := [RModelGroup 2]\<rparr>] = cyclicStore"
    by (simp add: selfRefStore_def cyclicStore_def)
  have d1: "deref selfRefStore (Suc 0) = Some \<lparr>mg_Kind = ''sequence'', mg_Particles = [RGroupRef groupG 1 1],
       mg_MinOcc = 1, mg_MaxOcc = 1\<rparr>"
    by (simp add: deref_def selfRefStore_def)
  have g: "map_of selfRefGroups groupG = Some 0" by (simp add: selfRefGroups_def)
  have d0: "deref cyclicStore 0 = Some \<lparr>mg_Kind = ''sequence'',
       mg_Particles = [RModelGroup (Suc 0), RGroupRef groupG 1 1], mg_MinOcc = 1, mg_MaxOcc = 1\<rparr>"
    by (simp add: deref_def cyclicStore_def)
  have second: "resolveParticlesWithVisited (Suc (Suc (Suc (Suc m)))) selfRefGroups
                  [RGroupRef groupG 1 1] (cyclicStore, []) = NoFuel"
    using cyclic_never_returns[of "Suc (Suc (Suc m))" "[RGroupRef groupG 1 1]" "[groupG]"]
    by (simp add: g d0)
  show ?thesis
    unfolding resolveParticles_def
    apply (subst resolveParticlesWithVisited.simps(3))
    apply (simp add: d1 first_particle upd second del: resolveParticlesWithVisited.simps)
    done
qed

lemma self_reference_all_fuel:
  "resolveParticles fuel selfRefGroups [RModelGroup (Suc 0), RGroupRef groupG 1 1] selfRefStore
   = NoFuel"
proof -
  consider "fuel = 0" | "fuel = Suc 0" | "fuel = Suc (Suc 0)" | "fuel = Suc (Suc (Suc 0))"
    | m where "fuel = Suc (Suc (Suc (Suc m)))"
    by (metis not0_implies_Suc)
  then show ?thesis
    by cases (simp_all only: small_fuel large_fuel)
qed

text \<open>
  Claim C4 fails on the code. The named group \<open>G\<close> is a sequence of a nested sequence
  holding a reference to \<open>G\<close>, followed by a reference to \<open>G\<close>. Resolving the
  particles of \<open>G\<close>, as the second pass of the compiler does for every named group,
  never returns, whatever depth of recursion is allowed: resolving the nested sequence
  assigns to its \<^verbatim>\<open>Particles\<close> a copy of \<open>G\<close> that holds the nested sequence itself, and
  the following reference to \<open>G\<close> then walks this cycle of model groups, which no
  visited set guards. Resolving the nested sequence alone returns, but leaves exactly
  that cyclic store, so its result is not a finite particle tree. Two groups that refer
  to each other directly are resolved as the claim says: the call returns and the inner
  reference is left in place at the cycle position.
\<close>

theorem self_referential_group_never_resolves:
  "mg_Particles (selfRefStore ! 0) = [RModelGroup (Suc 0), RGroupRef groupG 1 1]
   \<and> (\<forall>fuel. resolveParticles fuel selfRefGroups
                  [RModelGroup (Suc 0), RGroupRef groupG 1 1] selfRefStore = NoFuel)
   \<and> resolveParticles 4 selfRefGroups [RModelGroup (Suc 0)] selfRefStore
       = Returned ([RModelGroup (Suc 0)], cyclicStore, [])
   \<and> mg_Particles (cyclicStore ! 1) = [RModelGroup 2]
   \<and> mg_Particles (cyclicStore ! 2) = [RModelGroup (Suc 0), RGroupRef groupG 1 1]
   \<and> resolveParticles 3 mutualGroups [RGroupRef groupH 1 1] mutualStore
       = Returned ([RModelGroup 3],
           mutualStore @
             [\<lparr>mg_Kind = ''sequence'', mg_Particles = [RGroupRef groupH 1 1],
               mg_MinOcc = 1, mg_MaxOcc = 1\<rparr>,
              \<lparr>mg_Kind = ''choice'', mg_Particles = [RModelGroup 2],
               mg_MinOcc = 1, mg_MaxOcc = 1\<rparr>],
           [])"
proof -
  have a: "resolveParticles 4 selfRefGroups [RModelGroup (Suc 0)] selfRefStore
       = Returned ([RModelGroup (Suc 0)], cyclicStore, [])"
    by code_simp
  have b: "resolveParticles 3 mutualGroups [RGroupRef groupH 1 1] mutualStore
       = Returned ([RModelGroup 3],
           mutualStore @
             [\<lparr>mg_Kind = ''sequence'', mg_Particles = [RGroupRef groupH 1 1],
               mg_MinOcc = 1, mg_MaxOcc = 1\<rparr>,
              \<lparr>mg_Kind = ''choice'', mg_Particles = [RModelGroup 2],
               mg_MinOcc = 1, mg_MaxOcc = 1\<rparr>],
           [])"
    by code_simp
  have c: "mg_Particles (selfRefStore ! 0) = [RModelGroup (Suc 0), RGroupRef groupG 1 1]"
    "mg_Particles (cyclicStore ! 1) = [RModelGroup 2]"
    "mg_Particles (cyclicStore ! 2) = [RModelGroup (Suc 0), RGroupRef groupG 1 1]"
    by (simp_all add: selfRefStore_def cyclicStore_def)
  show ?thesis
    using a b c self_reference_all_fuel by blast
qed

section \<open>Properties of the type-compatibility walk\<close>

lemma chain_walk:
  "derivesVia s a (Name e) ns \<Longrightarrow> distinct ns \<Longrightarrow> set ns \<inter> visited = {} \<Longrightarrow>
   isTypeCompatibleWithCycleDetection s (Some a) (Some e) visited"
proof (induction ns arbitrary: a visited)
  case Nil
  then show ?case by (simp add: walk_unfold)
next
  case (Cons m ns)
  from Cons.prems(1) obtain b where ne: "Name a \<noteq> Name e" and m: "m = Name a"
    and b: "derivationBase s a = Some b" and ch: "derivesVia s b (Name e) ns"
    by (auto split: option.splits)
  have nv: "Name a \<notin> visited" using Cons.prems(3) m by auto
  have "set ns \<inter> insert (Name a) visited = {}"
    using Cons.prems(2,3) m by auto
  with Cons.IH[OF ch] Cons.prems(2)
  have "isTypeCompatibleWithCycleDetection s (Some b) (Some e) (insert (Name a) visited)"
    by simp
  then show ?case using ne nv b by (simp add: walk_unfold)
qed

lemma walk_chain:
  "isTypeCompatibleWithCycleDetection s (Some a) (Some e) visited \<Longrightarrow>
   \<exists>ns. derivesVia s a (Name e) ns \<and> distinct ns \<and> set ns \<inter> visited = {}"
proof (induction "walkMeasure (s, Some a, Some e, visited)" arbitrary: a visited rule: less_induct)
  case less
  show ?case
  proof (cases "Name a = Name e")
    case True
    then have "derivesVia s a (Name e) []" by simp
    then show ?thesis by (intro exI[of _ "[]"]) simp
  next
    case ne: False
    with less.prems have nv: "Name a \<notin> visited"
      by (simp add: walk_unfold split: if_splits)
    from less.prems ne nv obtain b where b: "derivationBase s a = Some b"
      and r: "isTypeCompatibleWithCycleDetection s (Some b) (Some e) (insert (Name a) visited)"
      by (auto simp: walk_unfold split: option.splits)
    have "walkMeasure (s, Some b, Some e, insert (Name a) visited)
          < walkMeasure (s, Some a, Some e, visited)"
      using walk_decreases[OF derivationBase_in[OF b] nv] by (simp add: walkMeasure_def)
    from less.hyps[OF this r] obtain ns where ns: "derivesVia s b (Name e) ns" "distinct ns"
      "set ns \<inter> insert (Name a) visited = {}" by blast
    have "derivesVia s a (Name e) (Name a # ns)" using ne b ns(1) by simp
    moreover have "distinct (Name a # ns)" using ns(2,3) by auto
    moreover have "set (Name a # ns) \<inter> visited = {}" using ns(3) nv by auto
    ultimately show ?thesis by blast
  qed
qed

text \<open>
  Claim C5. The type-compatibility walk is a total function (its definition is accepted
  with a termination proof: each recursive call adds a new name to the visited set, and
  the names of the registered types are finitely many), also on cyclic derivation chains.
  It answers true exactly when following the bases from the actual type reaches a type
  named as the expected one without passing a name twice and without passing a visited
  name; a type whose name is already visited (and differs from the expected name) gives
  false, and so does a nil type. So true is never returned after a chain has re-entered
  a cycle; \<open>isTypeCompatible\<close> starts the walk with nothing visited.
\<close>

theorem type_walk_cycle_safe:
  "(isTypeCompatibleWithCycleDetection s (Some a) (Some e) visited
      \<longleftrightarrow> (\<exists>ns. derivesVia s a (Name e) ns \<and> distinct ns \<and> set ns \<inter> visited = {}))
   \<and> (Name a \<noteq> Name e \<and> Name a \<in> visited
        \<longrightarrow> \<not> isTypeCompatibleWithCycleDetection s (Some a) (Some e) visited)
   \<and> \<not> isTypeCompatibleWithCycleDetection s None (Some e) visited
   \<and> \<not> isTypeCompatibleWithCycleDetection s (Some a) None visited
   \<and> (isTypeCompatible s (Some a) (Some e)
      \<longleftrightarrow> (\<exists>ns. derivesVia s a (Name e) ns \<and> distinct ns))"
proof -
  have top: "isTypeCompatible s (Some a) (Some e)
      \<longleftrightarrow> (\<exists>ns. derivesVia s a (Name e) ns \<and> distinct ns)"
    unfolding isTypeCompatible_def
    using walk_chain[of s a e "{}"] chain_walk[of s a e _ "{}"] by auto
  show ?thesis
    using walk_chain[of s a e visited] chain_walk[of s a e _ visited] top
    by (auto simp: walk_unfold walk_nil)
qed

theorem type_walk_cycle_safe_witness:
  "Name typeA \<noteq> Name typeC \<and> Name typeA \<in> {Name typeA}
   \<and> \<not> isTypeCompatibleWithCycleDetection cyclicSchema (Some typeA) (Some typeC) {Name typeA}
   \<and> \<not> isTypeCompatibleWithCycleDetection cyclicSchema (Some typeA) (Some typeC) {}
   \<and> isTypeCompatibleWithCycleDetection cyclicSchema (Some typeA) (Some typeB) {}"
proof -
  have n: "Name typeA \<noteq> Name typeC" "Name typeA \<in> {Name typeA}"
    by (simp_all add: typeA_def typeC_def)
  have cyc: "\<not> isTypeCompatibleWithCycleDetection cyclicSchema (Some typeA) (Some typeC) {}"
    by (simp add: walk_unfold derivationBase_def extensionBase_def restrictionBase_def
        cyclicSchema_def typeA_def typeB_def typeC_def)
  have ab: "isTypeCompatibleWithCycleDetection cyclicSchema (Some typeA) (Some typeB) {}"
    by (simp add: walk_unfold derivationBase_def extensionBase_def restrictionBase_def
        cyclicSchema_def typeA_def typeB_def typeC_def)
  show ?thesis
    using type_walk_cycle_safe[of cyclicSchema typeA typeC "{Name typeA}"] n cyc ab by blast
qed

section \<open>Properties of whitespace normalisation\<close>

lemma ReplaceAll_single:
  "ReplaceAll s [a] [b] = map (\<lambda>c. if c = a then b else c) s"
proof (induction s)
  case Nil
  show ?case by (simp add: ReplaceAll.simps)
next
  case (Cons c cs)
  then show ?case by (subst ReplaceAll.simps) auto
qed

lemma replace_eq:
  "NormalizeWhiteSpace_replace v
   = map (\<lambda>c. if c = 0x09 \<or> c = 0x0A \<or> c = 0x0D then 0x20 else c) v"
  by (simp add: NormalizeWhiteSpace_replace_def ReplaceAll_single Let_def)

lemma replace_idem:
  "NormalizeWhiteSpace_replace (NormalizeWhiteSpace_replace v) = NormalizeWhiteSpace_replace v"
  by (simp add: replace_eq)

lemma FieldsFuncFrom_word:
  "list_all (\<lambda>c. \<not> f c) w \<Longrightarrow> FieldsFuncFrom f cur (w @ rest) = FieldsFuncFrom f (cur @ w) rest"
  by (induction w arbitrary: cur) auto

lemma FieldsFuncFrom_clean:
  "list_all (\<lambda>c. \<not> f c) cur \<Longrightarrow> list_all (clean f) (FieldsFuncFrom f cur s)"
  by (induction s arbitrary: cur) (auto simp: clean_def)

lemma Fields_Join:
  "f sp \<Longrightarrow> list_all (clean f) ws \<Longrightarrow> FieldsFuncFrom f [] (Join ws [sp]) = ws"
proof (induction ws "[sp]" rule: Join.induct)
  case 1
  then show ?case by simp
next
  case (2 x)
  then show ?case
    using FieldsFuncFrom_word[of f x "[]" "[]"] by (simp add: clean_def)
next
  case (3 x y ys)
  then show ?case
    using FieldsFuncFrom_word[of f x "[]" "sp # Join (y # ys) [sp]"] by (simp add: clean_def)
qed

lemma nonspace_kept:
  "\<not> unicode_IsSpace c \<Longrightarrow> (if c = 0x09 \<or> c = 0x0A \<or> c = 0x0D then 0x20 else c) = c"
  by (simp add: unicode_IsSpace_def)

lemma clean_word_kept:
  "list_all (\<lambda>c. \<not> unicode_IsSpace c) w \<Longrightarrow> NormalizeWhiteSpace_replace w = w"
  unfolding replace_eq by (induction w) (simp_all add: nonspace_kept)

lemma replace_append:
  "NormalizeWhiteSpace_replace (a @ b) = NormalizeWhiteSpace_replace a @ NormalizeWhiteSpace_replace b"
  by (simp add: replace_eq)

lemma replace_space: "NormalizeWhiteSpace_replace (0x20 # r) = 0x20 # NormalizeWhiteSpace_replace r"
  by (simp add: replace_eq)

lemma clean_no_ws:
  "list_all (clean unicode_IsSpace) ws \<Longrightarrow>
   NormalizeWhiteSpace_replace (Join ws [0x20]) = Join ws [0x20]"
proof (induction ws "[0x20::nat]" rule: Join.induct)
  case 1
  then show ?case by (simp add: replace_eq)
next
  case (2 x)
  then show ?case by (simp add: clean_def clean_word_kept)
next
  case (3 x y ys)
  then show ?case
    by (simp add: clean_def clean_word_kept replace_append replace_space)
qed

text \<open>
  Claim C6. Whitespace normalisation is idempotent: normalising an already normalised
  value with the same mode (\<open>collapse\<close>, \<open>replace\<close>, or the identity \<open>preserve\<close>)
  changes nothing, for every value.
\<close>

theorem NormalizeWhiteSpace_idempotent:
  "NormalizeWhiteSpace (NormalizeWhiteSpace v ''collapse'') ''collapse''
     = NormalizeWhiteSpace v ''collapse''
   \<and> NormalizeWhiteSpace (NormalizeWhiteSpace v ''replace'') ''replace''
     = NormalizeWhiteSpace v ''replace''
   \<and> NormalizeWhiteSpace (NormalizeWhiteSpace v ''preserve'') ''preserve''
     = NormalizeWhiteSpace v ''preserve''"
proof -
  let ?ws = "Fields (NormalizeWhiteSpace_replace v)"
  have c: "list_all (clean unicode_IsSpace) ?ws"
    unfolding Fields_def FieldsFunc_def by (rule FieldsFuncFrom_clean) simp
  have sp: "unicode_IsSpace 0x20" by (simp add: unicode_IsSpace_def)
  have "Fields (NormalizeWhiteSpace_replace (Join ?ws [0x20])) = ?ws"
    using clean_no_ws[OF c] Fields_Join[OF sp c] by (simp add: Fields_def FieldsFunc_def)
  then show ?thesis
    by (simp add: NormalizeWhiteSpace_def Let_def replace_idem)
qed

section \<open>Wildcard namespace constraints\<close>

lemma FieldsS_example: "FieldsS ''http://a ##local'' = [''http://a'', ''##local'']"
  by (simp add: FieldsS_def FieldsFunc_def isSpaceChar_def unicode_IsSpace_def)

text \<open>
  The four modes and the list case of \<^verbatim>\<open>Matches\<close>, for a constraint value that does
  not begin with \<^verbatim>\<open>##\<close>.
\<close>

lemma MatchesWildcard_modes:
  "MatchesWildcard elem ''##any'' t"
  "MatchesWildcard elem ''##other'' t \<longleftrightarrow> e_NamespaceURI elem \<noteq> t"
  "MatchesWildcard elem ''##targetNamespace'' t \<longleftrightarrow> e_NamespaceURI elem = t"
  "MatchesWildcard elem ''##local'' t \<longleftrightarrow> e_NamespaceURI elem = []"
  by (simp_all add: MatchesWildcard_def ParseNamespaceConstraint_def Matches_def HasPrefix_def)

lemma MatchesWildcard_list:
  assumes "v \<noteq> []" "\<not> HasPrefix v ''##''"
  shows "MatchesWildcard elem v t \<longleftrightarrow>
         (\<exists>u \<in> set (FieldsS v). u = e_NamespaceURI elem
             \<or> (u = ''##targetNamespace'' \<and> e_NamespaceURI elem = t)
             \<or> (u = ''##local'' \<and> e_NamespaceURI elem = []))"
  using assms
  by (auto simp: MatchesWildcard_def ParseNamespaceConstraint_def Matches_def list_ex_iff)

text \<open>
  Claim C7 fails on the code for URI lists. A list that begins with \<^verbatim>\<open>##local\<close> or
  \<^verbatim>\<open>##targetNamespace\<close> is never split, so it matches nothing, not even a URI it
  lists; and \<^verbatim>\<open>Validator.matchesNamespace\<close> compares the entries \<^verbatim>\<open>##local\<close> and
  \<^verbatim>\<open>##targetNamespace\<close> of a list with the namespace literally. The same list with the
  URI first is matched by \<^verbatim>\<open>MatchesWildcard\<close>.
\<close>

theorem wildcard_list_special_entries_missed:
  "MatchesWildcard (Element '''' ''x'' [] [] '''') ''##local http://a'' ''http://t'' = False
   \<and> MatchesWildcard (Element ''http://t'' ''x'' [] [] '''') ''##targetNamespace http://a'' ''http://t'' = False
   \<and> MatchesWildcard (Element ''http://a'' ''x'' [] [] '''') ''##targetNamespace http://a'' ''http://t'' = False
   \<and> matchesNamespace (Schema ''http://t'' [] [] [] []) '''' ''http://a ##local'' = False
   \<and> matchesNamespace (Schema ''http://t'' [] [] [] []) ''http://t'' ''http://a ##targetNamespace'' = False
   \<and> MatchesWildcard (Element '''' ''x'' [] [] '''') ''http://a ##local'' ''http://t'' = True"
proof -
  have f2: "FieldsS ''http://a ##targetNamespace'' = [''http://a'', ''##targetNamespace'']"
    by (simp add: FieldsS_def FieldsFunc_def isSpaceChar_def unicode_IsSpace_def)
  show ?thesis
    by (simp add: MatchesWildcard_def ParseNamespaceConstraint_def Matches_def HasPrefix_def
        matchesNamespace_def FieldsS_example f2)
qed

section \<open>Properties of \<open>Validate\<close>\<close>

text \<open>
  Claim C8. For a nil document the call returns exactly one violation, with code
  \<open>xsd-null-document\<close>; for a document without a root element exactly one, with code
  \<open>xsd-no-root\<close>. In both cases nothing else is done: the validator is left as it was
  and the result does not depend on the element validation.
\<close>

theorem Validate_degenerate_input:
  "Validate validateElement v None =
     ([\<lparr>v_Element = None, v_Attribute = [], v_Code = ''xsd-null-document'',
        v_Message = ''Document is null'', v_Expected = [], v_Actual = []\<rparr>], v)
   \<and> Validate validateElement v (Some (Document None)) =
     ([\<lparr>v_Element = None, v_Attribute = [], v_Code = ''xsd-no-root'',
        v_Message = ''Document has no root element'', v_Expected = [], v_Actual = []\<rparr>], v)
   \<and> length (fst (Validate validateElement v None)) = 1
   \<and> length (fst (Validate validateElement v (Some (Document None)))) = 1"
  by (simp add: Validate_def)

section \<open>Properties of the built-in registry\<close>

lemma Index_colon_absent: "CHR '':'' \<notin> set s \<Longrightarrow> Index s '':'' = -1"
  by (induction s) auto

lemma Index_colon_first:
  "CHR '':'' \<notin> set p \<Longrightarrow> Index (p @ CHR '':'' # n) '':'' = int (length p)"
  by (induction p) auto

lemma strip_prefix_colon:
  "CHR '':'' \<notin> set p \<Longrightarrow>
   (let idx = Index (p @ CHR '':'' # n) '':''
    in if idx \<ge> 0 then drop (nat (idx + 1)) (p @ CHR '':'' # n) else p @ CHR '':'' # n) = n"
proof -
  assume nc: "CHR '':'' \<notin> set p"
  have k: "nat (int (length p) + 1) = Suc (length p)" by simp
  show ?thesis
    by (simp add: Index_colon_first[OF nc] Let_def k del: of_nat_Suc of_nat_add)
qed

lemma builtin_key_no_colon:
  "map_of builtinTypes n = Some b \<Longrightarrow> CHR '':'' \<notin> set n"
  by (auto simp: builtinTypes_def split: if_splits)

lemma GetBuiltinType_plain:
  "CHR '':'' \<notin> set n \<Longrightarrow> GetBuiltinType n = map_of builtinTypes n"
  by (simp add: GetBuiltinType_def Index_colon_absent)

lemma GetBuiltinType_prefixed:
  "CHR '':'' \<notin> set p \<Longrightarrow> GetBuiltinType (p @ CHR '':'' # n) = map_of builtinTypes n"
  using strip_prefix_colon[of p n] by (simp add: GetBuiltinType_def Let_def)

lemma GetBuiltinTypeValidator_plain:
  "CHR '':'' \<notin> set n \<Longrightarrow>
   GetBuiltinTypeValidator n = map_option bt_Validator (map_of builtinTypes n)"
  by (simp add: GetBuiltinTypeValidator_def GetBuiltinType_plain Index_colon_absent
      split: option.splits)

lemma GetBuiltinTypeValidator_prefixed:
  "CHR '':'' \<notin> set p \<Longrightarrow> CHR '':'' \<notin> set n \<Longrightarrow>
   GetBuiltinTypeValidator (p @ CHR '':'' # n) = map_option bt_Validator (map_of builtinTypes n)"
  using strip_prefix_colon[of p n]
  by (simp add: GetBuiltinTypeValidator_def GetBuiltinType_plain Let_def split: option.splits)

lemma afterFirstColon_prefixed:
  "CHR '':'' \<notin> set p \<Longrightarrow> afterFirstColon (p @ CHR '':'' # n) = n"
  using strip_prefix_colon[of p n] by (simp add: afterFirstColon_def)

lemma afterFirstColon_plain: "CHR '':'' \<notin> set n \<Longrightarrow> afterFirstColon n = n"
  by (simp add: afterFirstColon_def Index_colon_absent)

lemma GetBuiltinType_consults:
  "GetBuiltinType name = map_of builtinTypes (afterFirstColon name)"
  by (simp add: GetBuiltinType_def afterFirstColon_def Let_def)

lemma GetBuiltinTypeValidator_consults:
  "GetBuiltinTypeValidator name
   = map_option bt_Validator (map_of builtinTypes (afterFirstColon (afterFirstColon name)))"
proof -
  have "GetBuiltinTypeValidator name
        = map_option bt_Validator (GetBuiltinType (afterFirstColon name))"
    by (simp add: GetBuiltinTypeValidator_def afterFirstColon_def Let_def split: option.splits)
  then show ?thesis by (simp add: GetBuiltinType_consults)
qed

lemma builtin_key_with_colon_absent: "map_of builtinTypes (q @ CHR '':'' # n) = None"
proof (cases "map_of builtinTypes (q @ CHR '':'' # n)")
  case None
  then show ?thesis .
next
  case (Some b)
  from builtin_key_no_colon[OF Some] show ?thesis by simp
qed

text \<open>
  Claim C9, as stated, fails on the code for \<^verbatim>\<open>GetBuiltinTypeValidator\<close>: the name
  \<open>a:b:string\<close> has the local part \<open>b:string\<close> after its first colon, which is no key
  of the registry, and \<^verbatim>\<open>GetBuiltinType\<close> returns nil for it; but
  \<^verbatim>\<open>GetBuiltinTypeValidator\<close> strips a prefix itself and then calls \<^verbatim>\<open>GetBuiltinType\<close>,
  which strips once more, so it consults the registry with \<open>string\<close> and returns
  \<open>validateString\<close>.
\<close>

theorem two_prefixes_reach_the_registry:
  "afterFirstColon ''a:b:string'' = ''b:string''
   \<and> map_of builtinTypes ''b:string'' = None
   \<and> GetBuiltinType ''a:b:string'' = None
   \<and> GetBuiltinTypeValidator ''a:b:string'' = Some ''validateString''"
proof -
  have a: "afterFirstColon ''a:b:string'' = ''b:string''"
    by (simp add: afterFirstColon_def)
  have b: "afterFirstColon ''b:string'' = ''string''"
    by (simp add: afterFirstColon_def)
  have c: "map_of builtinTypes ''b:string'' = None"
    using builtin_key_with_colon_absent[of "''b''" "''string''"] by simp
  have d: "map_of builtinTypes ''string''
           = Some \<lparr>bt_Name = ''string'', bt_Validator = ''validateString''\<rparr>"
    by (simp add: builtinTypes_def)
  show ?thesis
    by (simp add: GetBuiltinType_consults GetBuiltinTypeValidator_consults a b c d)
qed

text \<open>
  Claim C9, amended. \<^verbatim>\<open>GetBuiltinType\<close> consults the registry with the part of the
  name after its first colon, and \<^verbatim>\<open>GetBuiltinTypeValidator\<close>, which strips twice, with
  the part after the second colon when there is one. So for a prefix \<open>p\<close> (a name
  without a colon) the lookup of \<open>p:n\<close> by \<^verbatim>\<open>GetBuiltinType\<close> is the registry entry of
  \<open>n\<close>, whatever \<open>p\<close> is: the result of the lookup of \<open>n\<close> for a built-in \<open>n\<close>, and
  nil when \<open>n\<close> is no key of the registry. \<^verbatim>\<open>GetBuiltinTypeValidator\<close> agrees with that
  on names with one colon (the validator of a built-in \<open>n\<close>, nil for a colon-free \<open>n\<close>
  that is no key); on a name \<open>p:q:n\<close> with two colon-free prefixes
  \<^verbatim>\<open>GetBuiltinType\<close> returns nil and \<^verbatim>\<open>GetBuiltinTypeValidator\<close> returns the validator
  of \<open>n\<close>, if \<open>n\<close> is built-in.
\<close>

theorem builtin_lookup_strips_prefix:
  assumes "CHR '':'' \<notin> set p"
  shows "GetBuiltinType name = map_of builtinTypes (afterFirstColon name)
       \<and> GetBuiltinTypeValidator name
           = map_option bt_Validator (map_of builtinTypes (afterFirstColon (afterFirstColon name)))
       \<and> afterFirstColon (p @ '':'' @ n) = n
       \<and> GetBuiltinType (p @ '':'' @ n) = map_of builtinTypes n
       \<and> (\<forall>b. map_of builtinTypes n = Some b \<longrightarrow>
             GetBuiltinType (p @ '':'' @ n) = GetBuiltinType n
           \<and> GetBuiltinType n = Some b
           \<and> GetBuiltinTypeValidator (p @ '':'' @ n) = GetBuiltinTypeValidator n
           \<and> GetBuiltinTypeValidator n = Some (bt_Validator b))
       \<and> (map_of builtinTypes n = None \<longrightarrow>
             GetBuiltinType (p @ '':'' @ n) = None
           \<and> (CHR '':'' \<notin> set n \<longrightarrow> GetBuiltinTypeValidator (p @ '':'' @ n) = None))
       \<and> (CHR '':'' \<notin> set q \<longrightarrow>
             GetBuiltinType (p @ '':'' @ q @ '':'' @ n) = None
           \<and> GetBuiltinTypeValidator (p @ '':'' @ q @ '':'' @ n)
               = map_option bt_Validator (map_of builtinTypes n))"
proof -
  have afc: "afterFirstColon (p @ '':'' @ n) = n"
    using afterFirstColon_prefixed[OF assms] by simp
  have pre: "GetBuiltinType (p @ '':'' @ n) = map_of builtinTypes n"
    using GetBuiltinType_prefixed[OF assms] by simp
  have found: "GetBuiltinType (p @ '':'' @ n) = GetBuiltinType n
           \<and> GetBuiltinType n = Some b
           \<and> GetBuiltinTypeValidator (p @ '':'' @ n) = GetBuiltinTypeValidator n
           \<and> GetBuiltinTypeValidator n = Some (bt_Validator b)"
    if b: "map_of builtinTypes n = Some b" for b
  proof -
    have nc: "CHR '':'' \<notin> set n" using builtin_key_no_colon[OF b] .
    show ?thesis
      using GetBuiltinTypeValidator_prefixed[OF assms nc] GetBuiltinTypeValidator_plain[OF nc]
        GetBuiltinType_plain[OF nc] pre b by simp
  qed
  have missing: "GetBuiltinTypeValidator (p @ '':'' @ n) = None"
    if "map_of builtinTypes n = None" "CHR '':'' \<notin> set n"
    using GetBuiltinTypeValidator_prefixed[OF assms that(2)] that(1) by simp
  have two: "GetBuiltinType (p @ '':'' @ q @ '':'' @ n) = None
           \<and> GetBuiltinTypeValidator (p @ '':'' @ q @ '':'' @ n)
               = map_option bt_Validator (map_of builtinTypes n)"
    if q: "CHR '':'' \<notin> set q"
  proof -
    have s1: "afterFirstColon (p @ '':'' @ q @ '':'' @ n) = q @ CHR '':'' # n"
      using afterFirstColon_prefixed[OF assms, of "q @ CHR '':'' # n"] by simp
    have s2: "afterFirstColon (q @ CHR '':'' # n) = n"
      using afterFirstColon_prefixed[OF q] .
    show ?thesis
      by (simp only: GetBuiltinType_consults GetBuiltinTypeValidator_consults s1 s2
          builtin_key_with_colon_absent simp_thms)
  qed
  show ?thesis
    using afc pre found missing two GetBuiltinType_consults[of name]
      GetBuiltinTypeValidator_consults[of name]
    by simp
qed

theorem builtin_lookup_strips_prefix_witness:
  "CHR '':'' \<notin> set ''xs'' \<and> CHR '':'' \<notin> set ''t''
   \<and> GetBuiltinType ''xs:string'' = GetBuiltinType ''string''
   \<and> GetBuiltinTypeValidator ''xs:string'' = Some ''validateString''
   \<and> GetBuiltinType ''tns:widget'' = None
   \<and> GetBuiltinTypeValidator ''tns:widget'' = None
   \<and> GetBuiltinType ''xs:t:string'' = None
   \<and> GetBuiltinTypeValidator ''xs:t:string'' = Some ''validateString''"
proof -
  have nc: "CHR '':'' \<notin> set ''xs''" by simp
  have nc': "CHR '':'' \<notin> set ''tns''" by simp
  have nt: "CHR '':'' \<notin> set ''t''" by simp
  have nw: "CHR '':'' \<notin> set ''widget''" by simp
  have s: "map_of builtinTypes ''string''
           = Some \<lparr>bt_Name = ''string'', bt_Validator = ''validateString''\<rparr>"
    by (simp add: builtinTypes_def)
  have w: "map_of builtinTypes ''widget'' = None"
    by (simp add: builtinTypes_def)
  show ?thesis
    using builtin_lookup_strips_prefix[OF nc, of "[]" "''string''" "''t''"]
      builtin_lookup_strips_prefix[OF nc', of "[]" "''widget''" "''t''"] s w nc nt nw
    by simp
qed

section \<open>ID and IDREF collection\<close>

lemma fold_concat_map: "fold f (concat (map g xs)) = fold (\<lambda>x. fold f (g x)) xs"
  by (induction xs) auto

lemma collect_fold: "collectIDsAndRefs e v = fold collectStep (elemAttrs e) v"
proof (induction e arbitrary: v)
  case (Element ns ln attrs children tx)
  have a: "fold collectStep (map (Pair (Element ns ln attrs children tx)) attrs) v
           = fold (collectAttr (Element ns ln attrs children tx)) attrs v" for v
    by (simp add: fold_map collectStep_def comp_def)
  have b: "fold collectIDsAndRefs children w = fold (\<lambda>x. fold collectStep (elemAttrs x)) children w" for w
    using Element.IH by (intro fold_cong) auto
  show ?case by (simp add: a b fold_concat_map)
qed

lemma find_append:
  "find P (xs @ ys) = (case find P xs of Some x \<Rightarrow> Some x | None \<Rightarrow> find P ys)"
  by (induction xs) auto

lemma isIDREFAttr_code:
  "list_ex (\<lambda>refName. a_LocalName a = refName \<and> a_NodeValue a \<noteq> []) idrefAttrs = isIDREFAttr a"
  by (auto simp: idrefAttrs_def isIDREFAttr_def)

lemma repeated_snoc:
  "repeated key (xs @ [x]) = repeated key xs @ (if key x \<in> key ` set xs then [x] else [])"
proof -
  have "filter (\<lambda>k. key ((xs @ [x]) ! k) \<in> key ` set (take k (xs @ [x]))) [0..<length xs]
        = filter (\<lambda>k. key (xs ! k) \<in> key ` set (take k xs)) [0..<length xs]"
    by (intro filter_cong) (auto simp: nth_append)
  moreover have "map (\<lambda>k. (xs @ [x]) ! k) (filter (\<lambda>k. key (xs ! k) \<in> key ` set (take k xs)) [0..<length xs])
        = map (\<lambda>k. xs ! k) (filter (\<lambda>k. key (xs ! k) \<in> key ` set (take k xs)) [0..<length xs])"
    by (intro map_cong) (auto simp: nth_append)
  ultimately show ?thesis by (simp add: repeated_def)
qed

lemma ids_step:
  "map_of (vl_ids (collectAttr e a v)) =
     (if isIDAttr a \<and> map_of (vl_ids v) (a_NodeValue a) = None
      then (map_of (vl_ids v))(a_NodeValue a \<mapsto> e) else map_of (vl_ids v))"
  by (auto simp: collectAttr_def Let_def addViolation_def update_conv' isIDAttr_def)

lemma idRefs_step:
  "vl_idRefs (collectAttr e a v) =
     (if isIDREFAttr a then AList.update (a_NodeValue a) e (vl_idRefs v) else vl_idRefs v)"
  by (auto simp: collectAttr_def Let_def addViolation_def isIDREFAttr_code)

lemma violations_step:
  "vl_violations (collectAttr e a v) =
     vl_violations v @ (if isIDAttr a \<and> map_of (vl_ids v) (a_NodeValue a) \<noteq> None
                        then [duplicateIDViolation (e, a)] else [])"
  by (auto simp: collectAttr_def Let_def addViolation_def isIDAttr_def duplicateIDViolation_def)

lemma fold_snoc_step:
  "fold collectStep (ps @ [p]) v = collectAttr (fst p) (snd p) (fold collectStep ps v)"
  by (simp add: collectStep_def)

lemma collected_ids:
  assumes "vl_ids v = []"
  shows "map_of (vl_ids (fold collectStep ps v)) i
         = map_option fst (find (\<lambda>p. isIDAttr (snd p) \<and> a_NodeValue (snd p) = i) ps)"
proof (induction ps arbitrary: i rule: rev_induct)
  case Nil
  then show ?case using assms by simp
next
  case (snoc p ps)
  show ?case
  proof (cases "find (\<lambda>p. isIDAttr (snd p) \<and> a_NodeValue (snd p) = i) ps")
    case None
    then show ?thesis
      unfolding fold_snoc_step
      using snoc.IH[of i] snoc.IH[of "a_NodeValue (snd p)"]
      by (auto simp: ids_step find_append)
  next
    case (Some q)
    then show ?thesis
      unfolding fold_snoc_step
      using snoc.IH[of i] snoc.IH[of "a_NodeValue (snd p)"]
      by (auto simp: ids_step find_append)
  qed
qed

lemma collected_idRefs:
  assumes "vl_idRefs v = []"
  shows "map_of (vl_idRefs (fold collectStep ps v)) r
         = map_option fst (find (\<lambda>p. isIDREFAttr (snd p) \<and> a_NodeValue (snd p) = r) (rev ps))
       \<and> distinct (map fst (vl_idRefs (fold collectStep ps v)))"
proof (induction ps arbitrary: r rule: rev_induct)
  case Nil
  then show ?case using assms by simp
next
  case (snoc p ps)
  then show ?case
    unfolding fold_snoc_step
    by (auto simp: idRefs_step update_conv' distinct_update)
qed

lemma collected_violations:
  assumes "vl_ids v = []" "vl_violations v = []"
  shows "vl_violations (fold collectStep ps v)
         = map duplicateIDViolation
             (repeated (\<lambda>p. a_NodeValue (snd p)) (filter (\<lambda>p. isIDAttr (snd p)) ps))"
proof (induction ps rule: rev_induct)
  case Nil
  then show ?case using assms by (simp add: repeated_def)
next
  case (snoc p ps)
  have seen: "(map_of (vl_ids (fold collectStep ps v)) i \<noteq> None)
              = (i \<in> (\<lambda>p. a_NodeValue (snd p)) ` set (filter (\<lambda>p. isIDAttr (snd p)) ps))" for i
    by (auto simp: collected_ids[OF assms(1)] find_None_iff image_iff)
  show ?case
    unfolding fold_snoc_step
    using snoc.IH seen[of "a_NodeValue (snd p)"]
    by (auto simp: violations_step repeated_snoc)
qed

lemma validateIDREFs_fold:
  "vl_ids (fold (\<lambda>(idref, elem) v.
             if map_of (vl_ids v) idref = None
             then addViolation v elem [] ''cvc-id.1''
                    (''There is no ID/IDREF binding for IDREF '' @ [CHR 0x27] @ idref @ [CHR 0x27])
                    [] idref
             else v) xs w) = vl_ids w
   \<and> vl_idRefs (fold (\<lambda>(idref, elem) v.
             if map_of (vl_ids v) idref = None
             then addViolation v elem [] ''cvc-id.1''
                    (''There is no ID/IDREF binding for IDREF '' @ [CHR 0x27] @ idref @ [CHR 0x27])
                    [] idref
             else v) xs w) = vl_idRefs w
   \<and> vl_violations (fold (\<lambda>(idref, elem) v.
             if map_of (vl_ids v) idref = None
             then addViolation v elem [] ''cvc-id.1''
                    (''There is no ID/IDREF binding for IDREF '' @ [CHR 0x27] @ idref @ [CHR 0x27])
                    [] idref
             else v) xs w)
       = vl_violations w
         @ map missingIDViolation (filter (\<lambda>p. map_of (vl_ids w) (fst p) = None) xs)"
  by (induction xs arbitrary: w)
     (auto simp: addViolation_def missingIDViolation_def)

lemma validateIDREFs_result:
  "vl_violations (validateIDREFs v)
     = vl_violations v
       @ map missingIDViolation (filter (\<lambda>p. map_of (vl_ids v) (fst p) = None) (vl_idRefs v))"
  "vl_ids (validateIDREFs v) = vl_ids v"
  "vl_idRefs (validateIDREFs v) = vl_idRefs v"
  unfolding validateIDREFs_def using validateIDREFs_fold[of "vl_idRefs v" v] by simp_all

lemma distinct_key_count:
  "distinct (map fst xs) \<Longrightarrow>
   length (filter (\<lambda>p. fst p = r) xs) = (if r \<in> fst ` set xs then 1 else 0)"
  by (induction xs) (auto simp: image_iff)

lemma missing_count:
  assumes "distinct (map fst xs)"
  shows "length (filter (\<lambda>x. v_Code x = ''cvc-id.1'' \<and> v_Actual x = r)
           (map missingIDViolation (filter (\<lambda>p. m (fst p) = None) xs)))
         = (if r \<in> fst ` set xs \<and> m r = None then 1 else 0)"
proof -
  have "filter (\<lambda>x. v_Code x = ''cvc-id.1'' \<and> v_Actual x = r)
           (map missingIDViolation (filter (\<lambda>p. m (fst p) = None) xs))
        = map missingIDViolation (filter (\<lambda>p. fst p = r \<and> m r = None) xs)"
    by (induction xs) (auto simp: missingIDViolation_def)
  then have "length (filter (\<lambda>x. v_Code x = ''cvc-id.1'' \<and> v_Actual x = r)
           (map missingIDViolation (filter (\<lambda>p. m (fst p) = None) xs)))
        = (if m r = None then length (filter (\<lambda>p. fst p = r) xs) else 0)"
    by simp
  then show ?thesis using distinct_key_count[OF assms, of r] by simp
qed

text \<open>
  Claim C10. The ID/IDREF cross-reference check looks at attribute names only. Starting
  from the state \<open>Validate\<close> resets, after the walk of the document: an ID value is
  bound to the first element, in document order, carrying it in an attribute with local
  name \<open>id\<close> or \<open>ID\<close>, and only such attributes bind IDs; every later such attribute
  with a value already bound gives one \<open>cvc-id.2\<close> violation; an IDREF value is bound to
  the last element carrying it, non-empty, in an attribute named \<open>target\<close>, \<open>ref\<close>,
  \<open>idref\<close>, \<open>IDREF\<close>, \<open>idlocation\<close> or \<open>sendid\<close>; and \<open>validateIDREFs\<close> appends,
  for every value, exactly one \<open>cvc-id.1\<close> violation when the value is a bound IDREF
  that is no bound ID, and none otherwise.
\<close>

theorem ids_and_idrefs_collected_by_attribute_name:
  "(let ps = elemAttrs root;
        c = collectIDsAndRefs root (v\<lparr>vl_violations := [], vl_ids := [], vl_idRefs := []\<rparr>);
        f = validateIDREFs (c\<lparr>vl_violations := vl_violations c @ extra\<rparr>)
    in map_of (vl_ids c) i
         = map_option fst (find (\<lambda>p. isIDAttr (snd p) \<and> a_NodeValue (snd p) = i) ps)
     \<and> map_of (vl_idRefs c) r
         = map_option fst (find (\<lambda>p. isIDREFAttr (snd p) \<and> a_NodeValue (snd p) = r) (rev ps))
     \<and> vl_violations c
         = map duplicateIDViolation
             (repeated (\<lambda>p. a_NodeValue (snd p)) (filter (\<lambda>p. isIDAttr (snd p)) ps))
     \<and> vl_violations f
         = vl_violations c @ extra
           @ map missingIDViolation (filter (\<lambda>p. map_of (vl_ids c) (fst p) = None) (vl_idRefs c))
     \<and> length (filter (\<lambda>x. v_Code x = ''cvc-id.1'' \<and> v_Actual x = r)
            (map missingIDViolation
               (filter (\<lambda>p. map_of (vl_ids c) (fst p) = None) (vl_idRefs c))))
         = (if (\<exists>p \<in> set ps. isIDREFAttr (snd p) \<and> a_NodeValue (snd p) = r)
               \<and> \<not> (\<exists>p \<in> set ps. isIDAttr (snd p) \<and> a_NodeValue (snd p) = r)
            then 1 else 0))"
proof -
  let ?v0 = "v\<lparr>vl_violations := [], vl_ids := [], vl_idRefs := []\<rparr>"
  let ?ps = "elemAttrs root"
  let ?c = "collectIDsAndRefs root ?v0"
  have c: "?c = fold collectStep ?ps ?v0" by (rule collect_fold)
  have ids: "map_of (vl_ids ?c) j
         = map_option fst (find (\<lambda>p. isIDAttr (snd p) \<and> a_NodeValue (snd p) = j) ?ps)" for j
    unfolding c by (rule collected_ids) simp
  have refs: "map_of (vl_idRefs ?c) j
         = map_option fst (find (\<lambda>p. isIDREFAttr (snd p) \<and> a_NodeValue (snd p) = j) (rev ?ps))"
    and dis: "distinct (map fst (vl_idRefs ?c))" for j
    unfolding c using collected_idRefs[of ?v0 ?ps j] by simp_all
  have vio: "vl_violations ?c = map duplicateIDViolation
             (repeated (\<lambda>p. a_NodeValue (snd p)) (filter (\<lambda>p. isIDAttr (snd p)) ?ps))"
    unfolding c by (rule collected_violations) simp_all
  have inrefs: "(r \<in> fst ` set (vl_idRefs ?c))
                = (\<exists>p \<in> set ?ps. isIDREFAttr (snd p) \<and> a_NodeValue (snd p) = r)"
  proof -
    have "(r \<in> fst ` set (vl_idRefs ?c)) = (map_of (vl_idRefs ?c) r \<noteq> None)"
      by (simp add: map_of_eq_None_iff)
    also have "\<dots> = (\<exists>p \<in> set ?ps. isIDREFAttr (snd p) \<and> a_NodeValue (snd p) = r)"
      by (auto simp: refs find_None_iff Bex_def)
    finally show ?thesis .
  qed
  have noid: "(map_of (vl_ids ?c) r = None)
              = (\<not> (\<exists>p \<in> set ?ps. isIDAttr (snd p) \<and> a_NodeValue (snd p) = r))"
    by (auto simp: ids find_None_iff Bex_def)
  have cnt: "length (filter (\<lambda>x. v_Code x = ''cvc-id.1'' \<and> v_Actual x = r)
            (map missingIDViolation
               (filter (\<lambda>p. map_of (vl_ids ?c) (fst p) = None) (vl_idRefs ?c))))
         = (if (\<exists>p \<in> set ?ps. isIDREFAttr (snd p) \<and> a_NodeValue (snd p) = r)
               \<and> \<not> (\<exists>p \<in> set ?ps. isIDAttr (snd p) \<and> a_NodeValue (snd p) = r)
            then 1 else 0)"
    using missing_count[OF dis, of r "map_of (vl_ids ?c)"] inrefs noid by simp
  show ?thesis
    unfolding Let_def using ids[of i] refs[of r] vio cnt
    by (simp add: validateIDREFs_result)
qed

theorem ids_and_idrefs_collected_by_attribute_name_witness:
  "(let c = collectIDsAndRefs idRoot
              ((NewValidator keySchema)\<lparr>vl_violations := [], vl_ids := [], vl_idRefs := []\<rparr>)
    in map_of (vl_ids c) ''x'' = Some idRoot
     \<and> map_of (vl_idRefs c) ''y'' = Some idChildC
     \<and> map v_Code (vl_violations c) = [''cvc-id.2'']
     \<and> length (filter (\<lambda>x. v_Code x = ''cvc-id.1'' \<and> v_Actual x = ''y'')
            (map missingIDViolation
               (filter (\<lambda>p. map_of (vl_ids c) (fst p) = None) (vl_idRefs c)))) = 1)"
proof -
  have a: "map_option fst (find (\<lambda>p. isIDAttr (snd p) \<and> a_NodeValue (snd p) = ''x'')
             (elemAttrs idRoot)) = Some idRoot"
    by code_simp
  have b: "map_option fst (find (\<lambda>p. isIDREFAttr (snd p) \<and> a_NodeValue (snd p) = ''y'')
             (rev (elemAttrs idRoot))) = Some idChildC"
    by code_simp
  have c: "map v_Code (map duplicateIDViolation
             (repeated (\<lambda>p. a_NodeValue (snd p)) (filter (\<lambda>p. isIDAttr (snd p)) (elemAttrs idRoot))))
           = [''cvc-id.2'']"
    by code_simp
  have d: "(\<exists>p \<in> set (elemAttrs idRoot). isIDREFAttr (snd p) \<and> a_NodeValue (snd p) = ''y'')
           \<and> \<not> (\<exists>p \<in> set (elemAttrs idRoot). isIDAttr (snd p) \<and> a_NodeValue (snd p) = ''y'')"
    by code_simp
  show ?thesis
    using ids_and_idrefs_collected_by_attribute_name
            [where root = idRoot and v = "NewValidator keySchema" and i = "''x''"
               and r = "''y''" and extra = "[]"] a b c d
    unfolding Let_def by simp
qed

end
